theory Spec2Isabelle
  imports Complex_Main "HOL-Library.Sublist" "HOL-Library.Multiset" "HOL-Library.AList"
begin

section \<open>The admission and dispatch queue of \<^verbatim>\<open>gradio/queue.py\<close>\<close>

text \<open>
  A shallow embedding of the class \<^verbatim>\<open>Queue\<close>. The object \<^verbatim>\<open>self\<close> is a record that every
  method takes and returns. Python exceptions are values of the type \<open>error\<close>. Python
  \<^verbatim>\<open>float\<close> durations and averages are idealised as real numbers, Python \<^verbatim>\<open>int\<close> is \<open>int\<close>.
\<close>

subsection \<open>Data model\<close>

datatype error =
    IndexError | TypeError | KeyError | ValueError | ZeroDivisionError
  | AttributeError | UnboundLocalError | RequestError | CancelledError

text \<open>
  All of these are subclasses of \<^verbatim>\<open>Exception\<close>, except \<^verbatim>\<open>asyncio.CancelledError\<close>, which
  derives from \<^verbatim>\<open>BaseException\<close> since Python 3.8 and from \<^verbatim>\<open>Exception\<close> before. The
  first argument tells whether the interpreter is older than 3.8 (the source tests
  \<^verbatim>\<open>sys.version_info < (3, 8)\<close> itself); the result tells whether \<^verbatim>\<open>except Exception\<close>
  catches the error.
\<close>

definition caught_by_except_Exception :: "bool \<Rightarrow> error \<Rightarrow> bool" where
  "caught_by_except_Exception lt_38 err \<longleftrightarrow> err \<noteq> CancelledError \<or> lt_38"

text \<open>
  \<^verbatim>\<open>class Event\<close> defines no \<^verbatim>\<open>__eq__\<close>, so Python compares events by object identity.
  The field \<open>ident\<close> stands for that identity. The fields set before an event is pushed
  are kept in the record; \<^verbatim>\<open>Event.data\<close>, which \<^verbatim>\<open>gather_event_data\<close> assigns later, lives
  in a store indexed by \<open>ident\<close> (see \<open>world\<close> below).
\<close>

record event =
  ident :: nat
  websocket :: nat
  fn_index :: "int option"
  session_hash :: string
  token :: "string option"

text \<open>
  One entry of \<^verbatim>\<open>blocks_dependencies\<close>: a dict read at the keys \<^verbatim>\<open>"batch"\<close> and
  \<^verbatim>\<open>"max_batch_size"\<close>; \<open>None\<close> is a missing key.
\<close>

record dependency =
  dep_batch :: "bool option"
  dep_max_batch_size :: "int option"

record Queue =
  event_queue :: "event list"
  stopped :: bool
  max_thread_count :: int
  data_gathering_start :: int
  update_intervals :: int
  active_jobs :: "event list option list"
  duration_history_total :: real
  duration_history_count :: int
  avg_process_time :: "real option"
  avg_concurrent_process_time :: "real option"
  queue_duration :: real
  live_updates :: bool
  max_size :: "int option"
  blocks_dependencies :: "dependency list"

text \<open>\<^verbatim>\<open>Queue.__init__\<close>. \<^verbatim>\<open>[None] * n\<close> is the empty list for \<^verbatim>\<open>n <= 0\<close>.\<close>

definition Queue_init ::
  "bool \<Rightarrow> int \<Rightarrow> int \<Rightarrow> int \<Rightarrow> int option \<Rightarrow> dependency list \<Rightarrow> Queue" where
  "Queue_init live concurrency_count gathering_start intervals maxsz deps =
     \<lparr> event_queue = [],
       stopped = False,
       max_thread_count = concurrency_count,
       data_gathering_start = gathering_start,
       update_intervals = intervals,
       active_jobs = replicate (nat concurrency_count) None,
       duration_history_total = 0,
       duration_history_count = 0,
       avg_process_time = None,
       avg_concurrent_process_time = None,
       queue_duration = 1,
       live_updates = live,
       max_size = maxsz,
       blocks_dependencies = deps \<rparr>"

subsection \<open>Python list primitives\<close>

text \<open>\<^verbatim>\<open>xs[i]\<close> for an index that may be \<^verbatim>\<open>None\<close> or negative.\<close>

definition py_getitem :: "'a list \<Rightarrow> int option \<Rightarrow> error + 'a" where
  "py_getitem xs io =
     (case io of
        None \<Rightarrow> Inl TypeError
      | Some i \<Rightarrow>
          if 0 \<le> i then
            (if nat i < length xs then Inr (xs ! nat i) else Inl IndexError)
          else
            (if nat (- i) \<le> length xs then Inr (xs ! (length xs - nat (- i)))
             else Inl IndexError))"

text \<open>\<^verbatim>\<open>xs[:n]\<close>: a negative bound counts from the end.\<close>

definition py_slice_to :: "'a list \<Rightarrow> int \<Rightarrow> 'a list" where
  "py_slice_to xs n =
     (if 0 \<le> n then take (nat n) xs else take (nat (int (length xs) + n)) xs)"

text \<open>\<^verbatim>\<open>deque.remove(x)\<close>: removes the first occurrence, raises ValueError when there is none.\<close>

definition deque_remove :: "'a \<Rightarrow> 'a list \<Rightarrow> error + 'a list" where
  "deque_remove x xs = (if x \<in> set xs then Inr (remove1 x xs) else Inl ValueError)"

text \<open>
  \<^verbatim>\<open>[self.event_queue.remove(event) for event in rest_of_batch]\<close>: the removals happen one
  after the other on the queue; the first that raises stops the comprehension and leaves
  the queue as it is then.
\<close>

fun remove_each :: "'a list \<Rightarrow> 'a list \<Rightarrow> error option \<times> 'a list" where
  "remove_each [] q = (None, q)"
| "remove_each (x # xs) q =
     (case deque_remove x q of
        Inl err \<Rightarrow> (Some err, q)
      | Inr q' \<Rightarrow> remove_each xs q')"

text \<open>\<^verbatim>\<open>list.index(x)\<close>: the position of the first element equal to \<open>x\<close>.\<close>

fun list_index :: "'a list \<Rightarrow> 'a \<Rightarrow> error + nat" where
  "list_index [] x = Inl ValueError"
| "list_index (y # ys) x =
     (if y = x then Inr 0
      else (case list_index ys x of Inl err \<Rightarrow> Inl err | Inr i \<Rightarrow> Inr (Suc i)))"

subsection \<open>Admission: \<^verbatim>\<open>Queue.push\<close>\<close>

definition push :: "Queue \<Rightarrow> event \<Rightarrow> int option \<times> Queue" where
  "push q ev =
     (let queue_len = int (length (event_queue q))
      in if max_size q \<noteq> None \<and> queue_len \<ge> the (max_size q) then (None, q)
         else (Some queue_len, q\<lparr>event_queue := event_queue q @ [ev]\<rparr>))"

subsection \<open>Batch formation: \<^verbatim>\<open>Queue.get_events_in_batch\<close>\<close>

text \<open>
  The result is the returned tuple, or the exception raised, together with the queue
  object as the call leaves it (\<^verbatim>\<open>popleft\<close> has already happened when a lookup raises).
\<close>

definition get_events_in_batch ::
  "Queue \<Rightarrow> (error + (event list option \<times> bool)) \<times> Queue" where
  "get_events_in_batch q =
     (case event_queue q of
        [] \<Rightarrow> (Inr (None, False), q)
      | first_event # rest \<Rightarrow>
          (let q1 = q\<lparr>event_queue := rest\<rparr>;
               events = [first_event];
               event_fn_index = fn_index first_event
           in case py_getitem (blocks_dependencies q1) event_fn_index of
                Inl err \<Rightarrow> (Inl err, q1)
              | Inr dep \<Rightarrow>
                 (case dep_batch dep of
                    None \<Rightarrow> (Inl KeyError, q1)
                  | Some batch \<Rightarrow>
                     if batch then
                       (case dep_max_batch_size dep of
                          None \<Rightarrow> (Inl KeyError, q1)
                        | Some batch_size \<Rightarrow>
                           (let rest_of_batch =
                                  py_slice_to
                                    (filter (\<lambda>e. fn_index e = event_fn_index) (event_queue q1))
                                    (batch_size - 1);
                                events' = events @ rest_of_batch
                            in case remove_each rest_of_batch (event_queue q1) of
                                 (Some err, dq) \<Rightarrow> (Inl err, q1\<lparr>event_queue := dq\<rparr>)
                               | (None, dq) \<Rightarrow>
                                   (Inr (Some events', batch), q1\<lparr>event_queue := dq\<rparr>)))
                     else (Inr (Some events, batch), q1))))"

text \<open>
  The batch former in the words of the specification: scan the remaining queue in
  order, selecting up to \<open>n\<close> further events that match, and leave all others in place.
  The result is the pair (selected, left in the queue).
\<close>

fun scan_select :: "nat \<Rightarrow> ('a \<Rightarrow> bool) \<Rightarrow> 'a list \<Rightarrow> 'a list \<times> 'a list" where
  "scan_select n P [] = ([], [])"
| "scan_select n P (x # xs) =
     (if 0 < n \<and> P x
      then (let (sel, left) = scan_select (n - 1) P xs in (x # sel, left))
      else (let (sel, left) = scan_select n P xs in (sel, x # left)))"

subsection \<open>The estimator\<close>

text \<open>
  \<^verbatim>\<open>Queue.update_estimation\<close>. The assignments take effect one by one, so when the last
  division raises (\<^verbatim>\<open>min(...) == 0\<close>) the total, the count and \<^verbatim>\<open>avg_process_time\<close> are
  already updated. \<^verbatim>\<open>duration_history_count\<close> is at least 1 in every run that starts from
  \<^verbatim>\<open>__init__\<close>; the first division is guarded all the same.
\<close>

definition update_estimation :: "real \<Rightarrow> Queue \<Rightarrow> error option \<times> Queue" where
  "update_estimation duration q =
     (let q1 = q\<lparr>duration_history_total := duration_history_total q + duration\<rparr>;
          q2 = q1\<lparr>duration_history_count := duration_history_count q1 + 1\<rparr>
      in if duration_history_count q2 = 0 then (Some ZeroDivisionError, q2)
         else
          (let avg = duration_history_total q2 / of_int (duration_history_count q2);
               q3 = q2\<lparr>avg_process_time := Some avg\<rparr>;
               m = min (max_thread_count q3) (duration_history_count q3)
           in if m = 0 then (Some ZeroDivisionError, q3)
              else
               (let conc = avg / of_int m;
                    q4 = q3\<lparr>avg_concurrent_process_time := Some conc\<rparr>
                in (None,
                    q4\<lparr>queue_duration := conc * of_nat (length (event_queue q4))\<rparr>))))"

text \<open>
  A run of \<^verbatim>\<open>update_estimation\<close> calls; between two calls the pending queue may have any
  content, so each duration comes with the queue content at the time of its call. The
  run stops at the first call that raises.
\<close>

fun update_estimations :: "(real \<times> event list) list \<Rightarrow> Queue \<Rightarrow> error option \<times> Queue" where
  "update_estimations [] q = (None, q)"
| "update_estimations ((d, evs) # rest) q =
     (case update_estimation d (q\<lparr>event_queue := evs\<rparr>) of
        (Some err, q') \<Rightarrow> (Some err, q')
      | (None, q') \<Rightarrow> update_estimations rest q')"

text \<open>
  \<^verbatim>\<open>class Estimation(BaseModel)\<close>. The pydantic constructor validates each field against
  its annotation: a \<^verbatim>\<open>float\<close> passed for an \<^verbatim>\<open>int\<close> field is converted by \<^verbatim>\<open>int(v)\<close>, which
  truncates towards zero. An attribute assignment on the model (as \<^verbatim>\<open>send_estimation\<close>
  does for \<^verbatim>\<open>rank\<close> and \<^verbatim>\<open>rank_eta\<close>) is not validated (\<^verbatim>\<open>validate_assignment\<close> is off by
  default, in pydantic 1 and 2 alike) and stores the value as it is; \<open>rank_eta\<close> therefore holds a Python number,
  embedded in the reals.
\<close>

record Estimation =
  msg :: "string option"
  rank :: "int option"
  queue_size :: int
  avg_event_process_time :: "real option"
  avg_event_concurrent_process_time :: "real option"
  rank_eta :: "real option"
  queue_eta :: int

definition int_validator :: "real \<Rightarrow> int" where
  "int_validator v = (if 0 \<le> v then \<lfloor>v\<rfloor> else \<lceil>v\<rceil>)"

definition get_estimation :: "Queue \<Rightarrow> Estimation" where
  "get_estimation q =
     \<lparr> msg = Some ''estimation'',
       rank = None,
       queue_size = int (length (event_queue q)),
       avg_event_process_time = avg_process_time q,
       avg_event_concurrent_process_time = avg_concurrent_process_time q,
       rank_eta = None,
       queue_eta = int_validator (queue_duration q) \<rparr>"

text \<open>
  The part of \<^verbatim>\<open>Queue.send_estimation\<close> before the message is sent: the snapshot with the
  rank folded in, which \<^verbatim>\<open>estimation.dict()\<close> then delivers. Adding \<^verbatim>\<open>None\<close> to a number
  raises TypeError.
\<close>

definition estimation_with_rank :: "Queue \<Rightarrow> Estimation \<Rightarrow> int \<Rightarrow> error + Estimation" where
  "estimation_with_rank q estimation rnk =
     (let e1 = estimation\<lparr>rank := Some rnk\<rparr>
      in case avg_concurrent_process_time q of
           None \<Rightarrow> Inr e1
         | Some conc \<Rightarrow>
            (case avg_process_time q of
               None \<Rightarrow> Inl TypeError
             | Some avg \<Rightarrow>
                (let e2 = e1\<lparr>rank_eta := Some (of_int rnk * conc + avg)\<rparr>
                 in if None \<notin> set (active_jobs q)
                    then Inr (e2\<lparr>rank_eta := Some (the (rank_eta e2) + conc)\<rparr>)
                    else Inr e2)))"

subsection \<open>JSON values and prediction responses\<close>

datatype jvalue =
    JNull | JBool bool | JNum real | JStr string
  | JList "jvalue list" | JDict "(string \<times> jvalue) list"

text \<open>Python truthiness of a decoded JSON value.\<close>

fun truthy :: "jvalue \<Rightarrow> bool" where
  "truthy JNull = False"
| "truthy (JBool b) = b"
| "truthy (JNum x) = (x \<noteq> 0)"
| "truthy (JStr s) = (s \<noteq> [])"
| "truthy (JList xs) = (xs \<noteq> [])"
| "truthy (JDict kvs) = (kvs \<noteq> [])"

text \<open>\<^verbatim>\<open>x.get(key, default)\<close>: only a dict has the method.\<close>

fun dict_get :: "jvalue \<Rightarrow> string \<Rightarrow> jvalue \<Rightarrow> error + jvalue" where
  "dict_get (JDict kvs) k d = Inr (case map_of kvs k of None \<Rightarrow> d | Some v \<Rightarrow> v)"
| "dict_get _ k d = Inl AttributeError"

text \<open>Iterating a value: a list gives its items, a string its characters, a dict its keys.\<close>

fun py_iter :: "jvalue \<Rightarrow> error + jvalue list" where
  "py_iter (JList xs) = Inr xs"
| "py_iter (JStr s) = Inr (map (\<lambda>c. JStr [c]) s)"
| "py_iter (JDict kvs) = Inr (map (\<lambda>kv. JStr (fst kv)) kvs)"
| "py_iter _ = Inl TypeError"

fun iter_all :: "jvalue list \<Rightarrow> error + jvalue list list" where
  "iter_all [] = Inr []"
| "iter_all (x # xs) =
     (case py_iter x of
        Inl err \<Rightarrow> Inl err
      | Inr c \<Rightarrow> (case iter_all xs of Inl err \<Rightarrow> Inl err | Inr cs \<Rightarrow> Inr (c # cs)))"

text \<open>
  \<^verbatim>\<open>list(zip(*x))[e]\<close>: \<^verbatim>\<open>zip\<close> stops at the shortest argument and yields nothing when it
  has no argument; the row is a tuple, a JSON array once sent.
\<close>

definition zip_star_at :: "jvalue \<Rightarrow> nat \<Rightarrow> error + jvalue" where
  "zip_star_at x e =
     (case py_iter x of
        Inl err \<Rightarrow> Inl err
      | Inr items \<Rightarrow>
         (case iter_all items of
            Inl err \<Rightarrow> Inl err
          | Inr cols \<Rightarrow>
             if cols \<noteq> [] \<and> list_all (\<lambda>c. e < length c) cols
             then Inr (JList (map (\<lambda>c. c ! e) cols))
             else Inl IndexError))"

text \<open>
  What \<^verbatim>\<open>process_events\<close> reads of the object that \<^verbatim>\<open>gradio.utils.Request\<close> returns.
\<close>

record response =
  has_exception :: bool
  exception :: string
  json :: jvalue
  status :: int

subsection \<open>The outside world\<close>

datatype message =
    SendData
  | ProcessStarts
  | Alive
  | ProcessGenerating jvalue bool
  | ProcessCompleted jvalue bool
  | EstimationMsg Estimation

text \<open>
  The effects of a run, in the order they happen: a \<^verbatim>\<open>send_json\<close> with the message and
  whether it went through, a \<^verbatim>\<open>receive_json\<close> and whether it gave a payload, a request
  to \<^verbatim>\<open>api/predict\<close> for the given events, a \<^verbatim>\<open>websocket.close\<close> and the exception it
  raised if any, the assignment of \<^verbatim>\<open>None\<close> to a cell of \<^verbatim>\<open>active_jobs\<close>, a request to \<^verbatim>\<open>reset\<close>.
\<close>

datatype action =
    SendJson event message bool
  | ReceiveJson event bool
  | PredictRequest "event list" bool
  | Close event "error option"
  | SlotRelease nat
  | ResetRequest string "int option"

fun is_request :: "action \<Rightarrow> bool" where
  "is_request (PredictRequest evs b) = True"
| "is_request _ = False"

fun is_release :: "action \<Rightarrow> bool" where
  "is_release (SlotRelease i) = True"
| "is_release _ = False"

definition count_requests :: "action list \<Rightarrow> nat" where
  "count_requests tr = length (filter is_request tr)"

text \<open>
  The collaborators answer as the environment decides. A websocket operation, a reading
  of the clock and a reset request are asked at the logical time they happen (the number
  of effects so far); the prediction endpoint is asked by the number of the call.
  \<open>'p\<close> is the payload type \<^verbatim>\<open>PredictBody\<close>.
\<close>

record 'p env =
  version_lt_38 :: bool
  send_json :: "nat \<Rightarrow> bool"
  receive_json :: "nat \<Rightarrow> 'p option"
  request :: "nat \<Rightarrow> error + response"
  time :: "nat \<Rightarrow> real"
  close :: "nat \<Rightarrow> error option"
  reset_request :: "nat \<Rightarrow> error option"

record 'p world =
  queue :: Queue
  event_data :: "nat \<Rightarrow> 'p option"
  trace :: "action list"

text \<open>
  \<^verbatim>\<open>Queue.clean_event\<close>. The lock \<^verbatim>\<open>delete_lock\<close> is taken to be granted; within one task
  the membership test and the removal are not interleaved with other tasks.
\<close>

definition clean_event :: "event \<Rightarrow> 'p world \<Rightarrow> 'p world" where
  "clean_event ev w =
     (if ev \<in> set (event_queue (queue w))
      then w\<lparr>queue := (queue w)\<lparr>event_queue := remove1 ev (event_queue (queue w))\<rparr>\<rparr>
      else w)"

definition send_message :: "'p env \<Rightarrow> event \<Rightarrow> message \<Rightarrow> 'p world \<Rightarrow> bool \<times> 'p world" where
  "send_message env ev m w =
     (let ok = send_json env (length (trace w));
          w1 = w\<lparr>trace := trace w @ [SendJson ev m ok]\<rparr>
      in if ok then (True, w1) else (False, clean_event ev w1))"

definition get_message :: "'p env \<Rightarrow> event \<Rightarrow> 'p world \<Rightarrow> 'p option \<times> 'p world" where
  "get_message env ev w =
     (let r = receive_json env (length (trace w));
          w1 = w\<lparr>trace := trace w @ [ReceiveJson ev (r \<noteq> None)]\<rparr>
      in case r of None \<Rightarrow> (None, clean_event ev w1) | Some d \<Rightarrow> (Some d, w1))"

definition gather_event_data :: "'p env \<Rightarrow> event \<Rightarrow> 'p world \<Rightarrow> bool \<times> 'p world" where
  "gather_event_data env ev w =
     (if event_data w (ident ev) = None then
        (let (client_awake, w1) = send_message env ev SendData w
         in if \<not> client_awake then (False, w1)
            else (let (d, w2) = get_message env ev w1
                  in (True, w2\<lparr>event_data := (event_data w2)(ident ev := d)\<rparr>)))
      else (True, w))"

text \<open>
  \<^verbatim>\<open>Queue.send_estimation\<close>: the snapshot with the rank folded in goes out as
  \<^verbatim>\<open>estimation.dict()\<close>.
\<close>

definition send_estimation ::
  "'p env \<Rightarrow> event \<Rightarrow> Estimation \<Rightarrow> int \<Rightarrow> 'p world \<Rightarrow> (error + Estimation) \<times> 'p world" where
  "send_estimation env ev estimation rnk w =
     (case estimation_with_rank (queue w) estimation rnk of
        Inl err \<Rightarrow> (Inl err, w)
      | Inr est \<Rightarrow>
         (let (client_awake, w1) = send_message env ev (EstimationMsg est) w
          in if \<not> client_awake then (Inr est, clean_event ev w1) else (Inr est, w1)))"

text \<open>
  \<^verbatim>\<open>Queue.call_prediction\<close>. With no payload on the first event, \<^verbatim>\<open>data.data = ...\<close> raises
  AttributeError and \<^verbatim>\<open>dict(data)\<close> raises TypeError. The body of the request is not
  represented; the answer is the environment's.
\<close>

definition call_prediction ::
  "'p env \<Rightarrow> event list \<Rightarrow> bool \<Rightarrow> 'p world \<Rightarrow> (error + response) \<times> 'p world" where
  "call_prediction env events batch w =
     (case events of
        [] \<Rightarrow> (Inl IndexError, w)
      | ev0 # _ \<Rightarrow>
         (case event_data w (ident ev0) of
            None \<Rightarrow> (Inl (if batch then AttributeError else TypeError), w)
          | Some d \<Rightarrow>
             (request env (count_requests (trace w)),
              w\<lparr>trace := trace w @ [PredictRequest events batch]\<rparr>)))"

subsection \<open>The dispatcher: one iteration of \<^verbatim>\<open>Queue.start_processing\<close>\<close>

text \<open>
  \<open>Dispatched events batch i\<close>: the batch was stored in cell \<open>i\<close> of \<^verbatim>\<open>active_jobs\<close> and
  the task \<^verbatim>\<open>process_events(events, batch)\<close> was launched.
\<close>

datatype dispatch =
    LoopEnded | Slept | NoBatch | Dispatched "event list" bool nat | DispatchRaised error

definition start_processing_iteration :: "Queue \<Rightarrow> dispatch \<times> Queue" where
  "start_processing_iteration q =
     (if stopped q then (LoopEnded, q)
      else if event_queue q = [] then (Slept, q)
      else if None \<notin> set (active_jobs q) then (Slept, q)
      else
       (case get_events_in_batch q of
          (Inl err, q1) \<Rightarrow> (DispatchRaised err, q1)
        | (Inr (None, batch), q1) \<Rightarrow> (NoBatch, q1)
        | (Inr (Some events, batch), q1) \<Rightarrow>
           if events = [] then (NoBatch, q1)
           else
            (case list_index (active_jobs q1) None of
               Inl err \<Rightarrow> (DispatchRaised err, q1)
             | Inr i \<Rightarrow>
                (Dispatched events batch i,
                 q1\<lparr>active_jobs := (active_jobs q1)[i := Some events]\<rparr>))))"

subsection \<open>Batch processing: \<^verbatim>\<open>Queue.process_events\<close>\<close>

text \<open>The first loop of the \<^verbatim>\<open>try\<close> block, which collects \<^verbatim>\<open>awake_events\<close>.\<close>

fun gather_awake ::
  "'p env \<Rightarrow> event list \<Rightarrow> event list \<Rightarrow> 'p world \<Rightarrow> event list \<times> 'p world" where
  "gather_awake env [] awake_events w = (awake_events, w)"
| "gather_awake env (ev # evs) awake_events w =
     (let (client_awake, w1) = gather_event_data env ev w;
          (client_awake', w2) =
             (if client_awake then send_message env ev ProcessStarts w1
              else (client_awake, w1))
      in gather_awake env evs
           (if client_awake' then awake_events @ [ev] else awake_events) w2)"

text \<open>\<^verbatim>\<open>for event in awake_events: await self.send_message(event, m)\<close>\<close>

fun send_each :: "'p env \<Rightarrow> message \<Rightarrow> event list \<Rightarrow> 'p world \<Rightarrow> 'p world" where
  "send_each env m [] w = w"
| "send_each env m (ev # evs) w = send_each env m evs (snd (send_message env ev m w))"

text \<open>
  The \<^verbatim>\<open>while\<close> loop of the streaming branch. \<open>ev\<close> is the variable \<^verbatim>\<open>event\<close> as the
  preceding \<^verbatim>\<open>for\<close> loop left it, \<open>old_response\<close> is unbound before the first iteration.
  The loop runs for as long as the endpoint answers \<^verbatim>\<open>is_generating\<close>, possibly forever.
\<close>

datatype loop_exit =
    LoopDone response "response option"
  | LoopReturn
  | LoopRaise error

partial_function (option) generating_loop ::
  "'p env \<Rightarrow> event list \<Rightarrow> bool \<Rightarrow> event \<Rightarrow> response \<Rightarrow> response option \<Rightarrow> 'p world
     \<Rightarrow> (loop_exit \<times> 'p world) option" where
  "generating_loop env awake_events batch ev resp old_response w =
     (case dict_get (json resp) ''is_generating'' (JBool False) of
        Inl err \<Rightarrow> Some (LoopRaise err, w)
      | Inr g \<Rightarrow>
         if \<not> truthy g then Some (LoopDone resp old_response, w)
         else
          (let (is_alive, w1) =
                 (if version_lt_38 env then send_message env ev Alive w else (True, w))
           in if \<not> is_alive then Some (LoopReturn, w1)
              else
               (let w2 = send_each env
                           (ProcessGenerating (json resp) (status resp = 200))
                           awake_events w1;
                    ev' = (if awake_events = [] then ev else last awake_events)
                in case call_prediction env awake_events batch w2 of
                     (Inl err, w3) \<Rightarrow> Some (LoopRaise err, w3)
                   | (Inr resp', w3) \<Rightarrow>
                       generating_loop env awake_events batch ev' resp' (Some resp) w3)))"

declare generating_loop.simps [code]

text \<open>
  The loop of the single-response branch, \<^verbatim>\<open>for e, event in enumerate(awake_events)\<close>;
  \<open>output\<close> is the dict that the iterations update in place.
\<close>

fun completed_loop ::
  "'p env \<Rightarrow> bool \<Rightarrow> response \<Rightarrow> (string \<times> jvalue) list \<Rightarrow> nat \<Rightarrow> event list \<Rightarrow> 'p world
     \<Rightarrow> error option \<times> 'p world" where
  "completed_loop env batch resp output e [] w = (None, w)"
| "completed_loop env batch resp output e (ev # evs) w =
     (if batch \<and> map_of output ''data'' \<noteq> None then
        (case dict_get (json resp) ''data'' JNull of
           Inl err \<Rightarrow> (Some err, w)
         | Inr x \<Rightarrow>
            (case zip_star_at x e of
               Inl err \<Rightarrow> (Some err, w)
             | Inr row \<Rightarrow>
                (let output' = AList.update ''data'' row output;
                     w1 = snd (send_message env ev
                                 (ProcessCompleted (JDict output') (status resp = 200)) w)
                 in completed_loop env batch resp output' (Suc e) evs w1)))
      else
        (let w1 = snd (send_message env ev
                         (ProcessCompleted (JDict output) (status resp = 200)) w)
         in completed_loop env batch resp output (Suc e) evs w1))"

text \<open>How control leaves the \<^verbatim>\<open>try\<close> block.\<close>

datatype outcome = Returned | Completed | Raised error

text \<open>
  The last two statements of the \<^verbatim>\<open>try\<close> block: \<^verbatim>\<open>end_time = time.time()\<close> and the update
  of the estimation when the last response has status 200.
\<close>

definition finish_cycle :: "'p env \<Rightarrow> real \<Rightarrow> response \<Rightarrow> 'p world \<Rightarrow> outcome \<times> 'p world" where
  "finish_cycle env begin_time resp w =
     (let end_time = time env (length (trace w))
      in if status resp = 200 then
           (case update_estimation (end_time - begin_time) (queue w) of
              (None, q') \<Rightarrow> (Completed, w\<lparr>queue := q'\<rparr>)
            | (Some err, q') \<Rightarrow> (Raised err, w\<lparr>queue := q'\<rparr>))
         else (Completed, w))"

text \<open>
  The \<^verbatim>\<open>try\<close> block. The result is the way control leaves it, \<^verbatim>\<open>awake_events\<close> and the
  world at that point; \<open>None\<close> when the streaming loop never ends.
\<close>

definition process_events_try ::
  "'p env \<Rightarrow> event list \<Rightarrow> bool \<Rightarrow> 'p world \<Rightarrow> (outcome \<times> event list \<times> 'p world) option" where
  "process_events_try env events batch w =
     (let (awake_events, w1) = gather_awake env events [] w
      in if awake_events = [] then Some (Returned, awake_events, w1)
         else
          (let begin_time = time env (length (trace w1))
           in case call_prediction env awake_events batch w1 of
                (Inl err, w2) \<Rightarrow> Some (Raised err, awake_events, w2)
              | (Inr resp, w2) \<Rightarrow>
                 if has_exception resp then
                   (let w3 = send_each env
                               (ProcessCompleted (JDict [(''error'', JStr (exception resp))]) False)
                               awake_events w2;
                        (out, w4) = finish_cycle env begin_time resp w3
                    in Some (out, awake_events, w4))
                 else
                   (case dict_get (json resp) ''is_generating'' (JBool False) of
                      Inl err \<Rightarrow> Some (Raised err, awake_events, w2)
                    | Inr g \<Rightarrow>
                       if truthy g then
                         (case generating_loop env awake_events batch (last events) resp None w2 of
                            None \<Rightarrow> None
                          | Some (LoopReturn, w3) \<Rightarrow> Some (Returned, awake_events, w3)
                          | Some (LoopRaise err, w3) \<Rightarrow> Some (Raised err, awake_events, w3)
                          | Some (LoopDone resp' None, w3) \<Rightarrow>
                              Some (Raised UnboundLocalError, awake_events, w3)
                          | Some (LoopDone resp' (Some old_response), w3) \<Rightarrow>
                              (let w4 = send_each env
                                          (ProcessCompleted (json old_response)
                                             (status old_response = 200))
                                          awake_events w3;
                                   (out, w5) = finish_cycle env begin_time resp' w4
                               in Some (out, awake_events, w5)))
                       else
                         (case json resp of
                            JDict output \<Rightarrow>
                              (case completed_loop env batch resp output 0 awake_events w2 of
                                 (Some err, w3) \<Rightarrow> Some (Raised err, awake_events, w3)
                               | (None, w3) \<Rightarrow>
                                  (let (out, w4) = finish_cycle env begin_time resp w3
                                   in Some (out, awake_events, w4)))
                          | _ \<Rightarrow> Some (Raised AttributeError, awake_events, w2)))))"

text \<open>
  The \<^verbatim>\<open>finally\<close> block: close every awake connection, release the slot, then clean and
  reset for every awake event. The close is wrapped in \<^verbatim>\<open>try: ... except Exception: pass\<close>:
  an exception of the close that \<^verbatim>\<open>except Exception\<close> catches is swallowed, any other
  (the cancellation of the task on Python 3.8 or later) leaves the block at once, before
  the slot is released. An exception of \<^verbatim>\<open>list.index\<close> or of a reset request ends the
  block there.
\<close>

fun disconnect_each ::
  "'p env \<Rightarrow> event list \<Rightarrow> 'p world \<Rightarrow> error option \<times> 'p world" where
  "disconnect_each env [] w = (None, w)"
| "disconnect_each env (ev # evs) w =
     (let r = close env (length (trace w));
          w1 = w\<lparr>trace := trace w @ [Close ev r]\<rparr>
      in case r of
           None \<Rightarrow> disconnect_each env evs w1
         | Some err \<Rightarrow>
            if caught_by_except_Exception (version_lt_38 env) err
            then disconnect_each env evs w1
            else (Some err, w1))"

fun reset_each :: "'p env \<Rightarrow> event list \<Rightarrow> 'p world \<Rightarrow> error option \<times> 'p world" where
  "reset_each env [] w = (None, w)"
| "reset_each env (ev # evs) w =
     (let w1 = clean_event ev w;
          w2 = w1\<lparr>trace := trace w1 @ [ResetRequest (session_hash ev) (fn_index ev)]\<rparr>
      in case reset_request env (length (trace w1)) of
           Some err \<Rightarrow> (Some err, w2)
         | None \<Rightarrow> reset_each env evs w2)"

definition process_events_finally ::
  "'p env \<Rightarrow> event list \<Rightarrow> event list \<Rightarrow> 'p world \<Rightarrow> error option \<times> 'p world" where
  "process_events_finally env events awake_events w =
     (case disconnect_each env awake_events w of
        (Some err, w1) \<Rightarrow> (Some err, w1)
      | (None, w1) \<Rightarrow>
         (case list_index (active_jobs (queue w1)) (Some events) of
            Inl err \<Rightarrow> (Some err, w1)
          | Inr i \<Rightarrow>
             reset_each env awake_events
               (w1\<lparr>queue := (queue w1)\<lparr>active_jobs := (active_jobs (queue w1))[i := None]\<rparr>,
                   trace := trace w1 @ [SlotRelease i]\<rparr>)))"

text \<open>
  \<^verbatim>\<open>Queue.process_events\<close>: the exception that leaves the coroutine, if any (one raised
  in the \<^verbatim>\<open>finally\<close> block replaces one of the \<^verbatim>\<open>try\<close> block), and the world afterwards.
\<close>

definition process_events ::
  "'p env \<Rightarrow> event list \<Rightarrow> bool \<Rightarrow> 'p world \<Rightarrow> (error option \<times> 'p world) option" where
  "process_events env events batch w =
     (case process_events_try env events batch w of
        None \<Rightarrow> None
      | Some (out, awake_events, w1) \<Rightarrow>
         (let (ferr, w2) = process_events_finally env events awake_events w1
          in Some ((case ferr of
                      Some err \<Rightarrow> Some err
                    | None \<Rightarrow> (case out of Raised err \<Rightarrow> Some err | _ \<Rightarrow> None)),
                   w2)))"

subsection \<open>Concrete inputs\<close>

text \<open>An event with the given identity and endpoint index, as \<^verbatim>\<open>Event(websocket, fn_index)\<close> makes it.\<close>

definition mk_event :: "nat \<Rightarrow> int \<Rightarrow> event" where
  "mk_event i f =
     \<lparr> ident = i, websocket = i, fn_index = Some f, session_hash = ''foo'', token = None \<rparr>"

subsection \<open>Observations on runs\<close>

text \<open>The estimation state of the queue object.\<close>

definition est_state :: "Queue \<Rightarrow> real \<times> int \<times> real option \<times> real option \<times> real" where
  "est_state q =
     (duration_history_total q, duration_history_count q, avg_process_time q,
      avg_concurrent_process_time q, queue_duration q)"

text \<open>
  A step is quiet when it leaves every attribute of the queue object but \<^verbatim>\<open>event_queue\<close>
  as it was and releases no slot.
\<close>

definition quiet :: "'p world \<Rightarrow> 'p world \<Rightarrow> bool" where
  "quiet w w' \<longleftrightarrow>
     (queue w')\<lparr>event_queue := []\<rparr> = (queue w)\<lparr>event_queue := []\<rparr>
   \<and> filter is_release (trace w') = filter is_release (trace w)"

text \<open>\<open>r\<close> is the answer to the latest prediction request of the run.\<close>

definition last_response :: "'p env \<Rightarrow> 'p world \<Rightarrow> response \<Rightarrow> bool" where
  "last_response env w r \<longleftrightarrow>
     0 < count_requests (trace w) \<and> request env (count_requests (trace w) - 1) = Inr r"

text \<open>
  The \<^verbatim>\<open>process_generating\<close> and \<^verbatim>\<open>process_completed\<close> messages sent to one event, in the
  order of the trace.
\<close>

fun is_progress :: "message \<Rightarrow> bool" where
  "is_progress (ProcessGenerating out ok) = True"
| "is_progress (ProcessCompleted out ok) = True"
| "is_progress _ = False"

fun results_for :: "event \<Rightarrow> action list \<Rightarrow> message list" where
  "results_for ev [] = []"
| "results_for ev (SendJson ev' m ok # tr) =
     (if ev' = ev \<and> is_progress m then m # results_for ev tr else results_for ev tr)"
| "results_for ev (_ # tr) = results_for ev tr"

text \<open>
  The logical time at which the latest prediction request of a trace was issued: the
  position of the last \<open>PredictRequest\<close>.
\<close>

definition final_leg_start :: "action list \<Rightarrow> nat" where
  "final_leg_start tr =
     length tr - 1 - length (takeWhile (\<lambda>a. \<not> is_request a) (rev tr))"

text \<open>
  The time from the issue of the latest prediction request to the end of a trace.
\<close>

definition final_leg_duration :: "'p env \<Rightarrow> action list \<Rightarrow> real" where
  "final_leg_duration env tr = time env (length tr) - time env (final_leg_start tr)"

text \<open>
  The value of \<^verbatim>\<open>response.json.get("is_generating", False)\<close> as a condition; \<open>None\<close> when
  the call raises.
\<close>

definition signals_generating :: "response \<Rightarrow> bool option" where
  "signals_generating r =
     (case dict_get (json r) ''is_generating'' (JBool False) of
        Inl err \<Rightarrow> None
      | Inr g \<Rightarrow> Some (truthy g))"

text \<open>
  The ownership rule of the data model: an event that waits in the queue belongs to no
  batch in flight.
\<close>

definition exclusively_owned :: "Queue \<Rightarrow> bool" where
  "exclusively_owned q \<longleftrightarrow>
     list_all
       (\<lambda>job. case job of
                 None \<Rightarrow> True
               | Some evs \<Rightarrow> list_all (\<lambda>e. e \<notin> set (event_queue q)) evs)
       (active_jobs q)"

subsection \<open>Concrete environments\<close>

definition gen_response :: "string \<Rightarrow> response" where
  "gen_response d =
     \<lparr> has_exception = False, exception = [],
       json = JDict [(''data'', JList [JStr d]), (''is_generating'', JBool True)],
       status = 200 \<rparr>"

definition final_response :: "int \<Rightarrow> response" where
  "final_response st =
     \<lparr> has_exception = False, exception = [],
       json = JDict [(''data'', JList [JNull]), (''is_generating'', JBool False)],
       status = st \<rparr>"

definition failed_response :: response where
  "failed_response =
     \<lparr> has_exception = True, exception = ''boom'', json = JNull, status = 500 \<rparr>"

text \<open>
  An environment on Python 3.8 or later in which every effect takes one second, every
  client sends its payload and every close and reset goes through.
\<close>

definition test_env :: "(nat \<Rightarrow> bool) \<Rightarrow> (nat \<Rightarrow> error + response) \<Rightarrow> unit env" where
  "test_env sends answers =
     \<lparr> version_lt_38 = False, send_json = sends, receive_json = (\<lambda>k. Some ()),
       request = answers, time = (\<lambda>k. real k), close = (\<lambda>k. None),
       reset_request = (\<lambda>k. None) \<rparr>"

definition all_sent :: "nat \<Rightarrow> bool" where
  "all_sent k = True"

definition none_sent :: "nat \<Rightarrow> bool" where
  "none_sent k = False"

definition single_answer :: "error + response \<Rightarrow> nat \<Rightarrow> error + response" where
  "single_answer a n = a"

text \<open>The endpoint answers \<^verbatim>\<open>is_generating\<close> twice, then ends with the given status.\<close>

definition streaming_answers :: "int \<Rightarrow> nat \<Rightarrow> error + response" where
  "streaming_answers st n =
     (if n = 0 then Inr (gen_response ''a'')
      else if n = 1 then Inr (gen_response ''b'')
      else Inr (final_response st))"

text \<open>The responses behind \<open>streaming_answers\<close>.\<close>

definition streaming_responses :: "int \<Rightarrow> nat \<Rightarrow> response" where
  "streaming_responses st i =
     (if i = 0 then gen_response ''a''
      else if i = 1 then gen_response ''b''
      else final_response st)"

definition test_queue :: Queue where
  "test_queue =
     (Queue_init False 1 0 1 None [\<lparr>dep_batch = Some False, dep_max_batch_size = Some 4\<rparr>])
       \<lparr>event_queue := [mk_event 0 0]\<rparr>"

definition test_world :: "Queue \<Rightarrow> unit world" where
  "test_world q = \<lparr> queue = q, event_data = (\<lambda>i. None), trace = [] \<rparr>"

text \<open>\<open>test_queue\<close> after one completed cycle of 3/2 seconds.\<close>

definition estimated_queue :: Queue where
  "estimated_queue = snd (update_estimation (3 / 2) test_queue)"

text \<open>
  The task is cancelled whenever it awaits the close of a connection; the endpoint answers
  at once with status 200.
\<close>

definition cancelled_close :: "nat \<Rightarrow> error option" where
  "cancelled_close k = Some CancelledError"

definition cancelling_env :: "unit env" where
  "cancelling_env =
     (test_env all_sent (single_answer (Inr (final_response 200))))
       \<lparr>close := cancelled_close\<rparr>"

text \<open>The state after the dispatcher has stored the one batch of \<open>test_queue\<close> in slot 0.\<close>

definition claimed_queue :: Queue where
  "claimed_queue = test_queue\<lparr>event_queue := [], active_jobs := [Some [mk_event 0 0]]\<rparr>"

section \<open>Admission\<close>

text \<open>
  C2. For every queue state and every event: when the queue is unbounded or its length is
  strictly below \<^verbatim>\<open>max_size\<close>, \<^verbatim>\<open>push\<close> appends the event at the back and returns the length
  before the insertion as rank; when the length is at or above \<^verbatim>\<open>max_size\<close>, it returns
  \<^verbatim>\<open>None\<close> and leaves the queue as it was.
\<close>

theorem push_rank_or_full:
  "(max_size q = None \<or> int (length (event_queue q)) < the (max_size q) \<longrightarrow>
      push q ev =
        (Some (int (length (event_queue q))), q\<lparr>event_queue := event_queue q @ [ev]\<rparr>))
   \<and> (max_size q \<noteq> None \<and> the (max_size q) \<le> int (length (event_queue q)) \<longrightarrow>
      push q ev = (None, q))"
  by (auto simp: push_def Let_def)

theorem push_rank_or_full_witness:
  "push (Queue_init False 1 0 1 (Some 1) []) (mk_event 0 0)
     = (Some 0, (Queue_init False 1 0 1 (Some 1) [])\<lparr>event_queue := [mk_event 0 0]\<rparr>)
   \<and> push ((Queue_init False 1 0 1 (Some 1) [])\<lparr>event_queue := [mk_event 0 0]\<rparr>) (mk_event 1 0)
     = (None, (Queue_init False 1 0 1 (Some 1) [])\<lparr>event_queue := [mk_event 0 0]\<rparr>)"
  using push_rank_or_full [of "Queue_init False 1 0 1 (Some 1) []" "mk_event 0 0"]
        push_rank_or_full
          [of "(Queue_init False 1 0 1 (Some 1) [])\<lparr>event_queue := [mk_event 0 0]\<rparr>"
              "mk_event 1 0"]
  by (simp add: Queue_init_def)

section \<open>The estimator\<close>

lemma update_estimation_fields:
  assumes "max_thread_count q \<noteq> 0" and "0 \<le> duration_history_count q"
  shows "\<exists>q'. update_estimation d q = (None, q')
     \<and> duration_history_total q' = duration_history_total q + d
     \<and> duration_history_count q' = duration_history_count q + 1
     \<and> max_thread_count q' = max_thread_count q
     \<and> avg_process_time q' =
         Some (duration_history_total q' / of_int (duration_history_count q'))
     \<and> avg_concurrent_process_time q' =
         Some (duration_history_total q' / of_int (duration_history_count q')
               / of_int (min (max_thread_count q') (duration_history_count q')))"
  using assms by (auto simp: update_estimation_def Let_def min_def)

lemma update_estimations_fields:
  assumes "max_thread_count q \<noteq> 0" and "0 \<le> duration_history_count q"
  shows "\<exists>q'. update_estimations ds q = (None, q')
     \<and> duration_history_total q' = duration_history_total q + sum_list (map fst ds)
     \<and> duration_history_count q' = duration_history_count q + int (length ds)
     \<and> max_thread_count q' = max_thread_count q
     \<and> (ds \<noteq> [] \<longrightarrow>
         avg_process_time q' =
           Some (duration_history_total q' / of_int (duration_history_count q'))
       \<and> avg_concurrent_process_time q' =
           Some (duration_history_total q' / of_int (duration_history_count q')
                 / of_int (min (max_thread_count q') (duration_history_count q'))))"
  using assms
proof (induction ds arbitrary: q)
  case Nil
  then show ?case by simp
next
  case (Cons a ds)
  obtain d evs where a: "a = (d, evs)" by (cases a)
  let ?q0 = "q\<lparr>event_queue := evs\<rparr>"
  have h0: "max_thread_count ?q0 \<noteq> 0" "0 \<le> duration_history_count ?q0"
    using Cons.prems by simp_all
  from update_estimation_fields[OF h0, of d] obtain q1 where
    q1: "update_estimation d ?q0 = (None, q1)"
      "duration_history_total q1 = duration_history_total q + d"
      "duration_history_count q1 = duration_history_count q + 1"
      "max_thread_count q1 = max_thread_count q"
      "avg_process_time q1 =
         Some (duration_history_total q1 / of_int (duration_history_count q1))"
      "avg_concurrent_process_time q1 =
         Some (duration_history_total q1 / of_int (duration_history_count q1)
               / of_int (min (max_thread_count q1) (duration_history_count q1)))"
    by auto
  have h1: "max_thread_count q1 \<noteq> 0" "0 \<le> duration_history_count q1"
    using q1 Cons.prems by simp_all
  from Cons.IH[OF h1] obtain q' where
    q': "update_estimations ds q1 = (None, q')"
      "duration_history_total q' = duration_history_total q1 + sum_list (map fst ds)"
      "duration_history_count q' = duration_history_count q1 + int (length ds)"
      "max_thread_count q' = max_thread_count q1"
      "ds \<noteq> [] \<longrightarrow>
         avg_process_time q' =
           Some (duration_history_total q' / of_int (duration_history_count q'))
       \<and> avg_concurrent_process_time q' =
           Some (duration_history_total q' / of_int (duration_history_count q')
                 / of_int (min (max_thread_count q') (duration_history_count q')))"
    by auto
  show ?case
  proof (cases "ds = []")
    case True
    then have "q' = q1" using q'(1) by simp
    then show ?thesis using a q1 True by simp
  next
    case False
    then show ?thesis using a q1 q' by (simp add: algebra_simps)
  qed
qed

text \<open>
  C6. After every run of \<open>n \<ge> 1\<close> calls of \<^verbatim>\<open>update_estimation\<close> with the durations
  \<open>d1 .. dn\<close> on a queue made by \<^verbatim>\<open>__init__\<close> (whatever the pending queue holds at each
  call), \<^verbatim>\<open>avg_process_time\<close> is \<open>(d1 + ... + dn) / n\<close> and \<^verbatim>\<open>avg_concurrent_process_time\<close>
  is that average divided by \<open>min(concurrency limit, n)\<close>. The divisor of the claim is
  defined when the concurrency limit is not zero.
\<close>

theorem update_estimation_averages:
  assumes "concurrency_count \<noteq> 0" and "ds \<noteq> []"
  shows "\<exists>q'. update_estimations ds (Queue_init live concurrency_count g i m deps) = (None, q')
     \<and> avg_process_time q' = Some (sum_list (map fst ds) / of_nat (length ds))
     \<and> avg_concurrent_process_time q' =
         Some (sum_list (map fst ds) / of_nat (length ds)
               / of_int (min concurrency_count (int (length ds))))"
proof -
  let ?q = "Queue_init live concurrency_count g i m deps"
  have h: "max_thread_count ?q \<noteq> 0" "0 \<le> duration_history_count ?q"
    using assms by (simp_all add: Queue_init_def)
  from update_estimations_fields[OF h, of ds] assms(2) show ?thesis
    by (auto simp: Queue_init_def)
qed

theorem update_estimation_averages_witness:
  "(2::int) \<noteq> 0 \<and> [(1::real, []), (3, [mk_event 0 0])] \<noteq> []
   \<and> (\<exists>q'. update_estimations [(1, []), (3, [mk_event 0 0])]
               (Queue_init False 2 0 1 None []) = (None, q')
        \<and> avg_process_time q' = Some 2
        \<and> avg_concurrent_process_time q' = Some 1)"
  using update_estimation_averages
          [where concurrency_count = 2 and ds = "[(1, []), (3, [mk_event 0 0])]"
             and live = False and g = 0 and i = 1 and m = None and deps = "[]"]
  by simp

text \<open>
  C7, as the code has it. For a concurrency limit of at least 1 and every duration \<open>d\<close>:
  feeding \<open>d\<close> once as the only sample gives \<^verbatim>\<open>avg_process_time == d\<close> and
  \<^verbatim>\<open>avg_concurrent_process_time == d\<close>; feeding the same \<open>d\<close> a second time leaves
  \<^verbatim>\<open>avg_process_time\<close> at \<open>d\<close> and makes \<^verbatim>\<open>avg_concurrent_process_time\<close> equal to
  \<open>d / min(limit, 2)\<close>, which is the value it had exactly when the limit is 1 or \<open>d = 0\<close>.
\<close>

theorem same_duration_twice:
  assumes "1 \<le> c"
  shows "\<exists>q1 q2.
       update_estimation d ((Queue_init live c g i m deps)\<lparr>event_queue := evs\<rparr>) = (None, q1)
     \<and> avg_process_time q1 = Some d
     \<and> avg_concurrent_process_time q1 = Some d
     \<and> update_estimation d (q1\<lparr>event_queue := evs'\<rparr>) = (None, q2)
     \<and> avg_process_time q2 = Some d
     \<and> avg_concurrent_process_time q2 = Some (d / of_int (min c 2))
     \<and> ((avg_concurrent_process_time q2 = avg_concurrent_process_time q1) = (c = 1 \<or> d = 0))"
proof -
  have "c = 1 \<or> 2 \<le> c" using assms by arith
  then show ?thesis
    by (auto simp: update_estimation_def Queue_init_def Let_def min_def)
qed

theorem same_duration_twice_witness:
  "(1::int) \<le> 2
   \<and> (\<exists>q1 q2.
       update_estimation 1 ((Queue_init False 2 0 1 None [])\<lparr>event_queue := []\<rparr>) = (None, q1)
     \<and> avg_process_time q1 = Some 1
     \<and> avg_concurrent_process_time q1 = Some 1
     \<and> update_estimation 1 (q1\<lparr>event_queue := []\<rparr>) = (None, q2)
     \<and> avg_process_time q2 = Some 1
     \<and> avg_concurrent_process_time q2 = Some (1 / 2)
     \<and> avg_concurrent_process_time q2 \<noteq> avg_concurrent_process_time q1)"
  using same_duration_twice
          [where c = 2 and d = 1 and live = False and g = 0 and i = 1 and m = None
             and deps = "[]" and evs = "[]" and evs' = "[]"]
  by simp

text \<open>
  The claim C7 as stated fails for a concurrency limit of 2 and \<open>d = 1\<close>: the second
  feeding changes \<^verbatim>\<open>avg_concurrent_process_time\<close> from 1 to 1/2.
\<close>

theorem same_duration_twice_counterexample:
  "avg_concurrent_process_time
     (snd (update_estimations [(1, [])] (Queue_init False 2 0 1 None []))) = Some 1
   \<and> avg_concurrent_process_time
     (snd (update_estimations [(1, []), (1, [])] (Queue_init False 2 0 1 None []))) = Some (1 / 2)"
  by (simp add: update_estimation_def Queue_init_def Let_def)

lemma int_validator_truncates:
  "real_of_int (int_validator v) = sgn v * real_of_int \<lfloor>\<bar>v\<bar>\<rfloor>"
  unfolding int_validator_def by (auto simp: sgn_if ceiling_def)

text \<open>
  C8, as the code has it. In every estimation snapshot produced after a call of
  \<^verbatim>\<open>update_estimation\<close>, whatever happened to the pending queue and to the slots since,
  \<^verbatim>\<open>queue_eta\<close> is \<^verbatim>\<open>avg_concurrent_process_time\<close> multiplied by the queue length that was
  current at that call of \<^verbatim>\<open>update_estimation\<close>, truncated to an integer.
\<close>

theorem queue_eta_from_last_update:
  assumes "update_estimation d q = (None, q1)"
  shows "queue_eta (get_estimation (q1\<lparr>event_queue := evs, active_jobs := jobs\<rparr>))
           = int_validator (the (avg_concurrent_process_time q1)
                              * of_nat (length (event_queue q)))
       \<and> avg_event_concurrent_process_time
           (get_estimation (q1\<lparr>event_queue := evs, active_jobs := jobs\<rparr>))
           = avg_concurrent_process_time q1"
  using assms
  by (auto simp: update_estimation_def get_estimation_def Let_def split: if_splits)

theorem queue_eta_from_last_update_witness:
  "update_estimation (3 / 4)
      ((Queue_init False 1 0 1 None [])\<lparr>event_queue := [mk_event 0 0, mk_event 1 0]\<rparr>)
     = (None, snd (update_estimation (3 / 4)
         ((Queue_init False 1 0 1 None [])\<lparr>event_queue := [mk_event 0 0, mk_event 1 0]\<rparr>)))
   \<and> queue_eta (get_estimation
        ((snd (update_estimation (3 / 4)
           ((Queue_init False 1 0 1 None [])\<lparr>event_queue := [mk_event 0 0, mk_event 1 0]\<rparr>)))
         \<lparr>event_queue := [], active_jobs := [None]\<rparr>)) = 1"
proof -
  let ?q = "(Queue_init False 1 0 1 None [])\<lparr>event_queue := [mk_event 0 0, mk_event 1 0]\<rparr>"
  have h: "update_estimation (3 / 4) ?q = (None, snd (update_estimation (3 / 4) ?q))"
    by (simp add: update_estimation_def Queue_init_def Let_def)
  have c: "avg_concurrent_process_time (snd (update_estimation (3 / 4) ?q)) = Some (3 / 4)"
    by (simp add: update_estimation_def Queue_init_def Let_def)
  have v: "int_validator (3 / 2) = 1"
    by (simp add: int_validator_def)
  show ?thesis
    using h queue_eta_from_last_update [OF h, where evs = "[]" and jobs = "[None]"] c v
    by simp
qed

text \<open>
  The claim C8 as stated fails: after one cycle of 2 seconds on an empty queue and one
  push, the snapshot has \<^verbatim>\<open>queue_eta\<close> 0 while \<^verbatim>\<open>avg_concurrent_process_time\<close> times the
  current queue length is 2; and after one cycle of 3/4 seconds with two events pending,
  \<^verbatim>\<open>queue_eta\<close> is 1 while the product is 3/2.
\<close>

theorem queue_eta_current_length_counterexample:
  "queue_eta (get_estimation
      (snd (push (snd (update_estimation 2 (Queue_init False 1 0 1 None []))) (mk_event 0 0)))) = 0
   \<and> the (avg_concurrent_process_time
      (snd (push (snd (update_estimation 2 (Queue_init False 1 0 1 None []))) (mk_event 0 0))))
     * real (length (event_queue
      (snd (push (snd (update_estimation 2 (Queue_init False 1 0 1 None []))) (mk_event 0 0)))))
     = 2
   \<and> queue_eta (get_estimation
      (snd (update_estimation (3 / 4)
        ((Queue_init False 1 0 1 None [])\<lparr>event_queue := [mk_event 0 0, mk_event 1 0]\<rparr>)))) = 1
   \<and> the (avg_concurrent_process_time
      (snd (update_estimation (3 / 4)
        ((Queue_init False 1 0 1 None [])\<lparr>event_queue := [mk_event 0 0, mk_event 1 0]\<rparr>))))
     * real (length (event_queue
      (snd (update_estimation (3 / 4)
        ((Queue_init False 1 0 1 None [])\<lparr>event_queue := [mk_event 0 0, mk_event 1 0]\<rparr>)))))
     = 3 / 2"
  by (simp add: update_estimation_def Queue_init_def Let_def push_def get_estimation_def
        int_validator_def)

text \<open>
  C9, as the code has it. Before the first call of \<^verbatim>\<open>update_estimation\<close>, whatever the
  pending queue and the slots hold, a snapshot reports \<^verbatim>\<open>avg_event_process_time\<close>,
  \<^verbatim>\<open>avg_event_concurrent_process_time\<close> and \<^verbatim>\<open>rank_eta\<close> as \<^verbatim>\<open>None\<close>, also once the rank is
  folded in; \<^verbatim>\<open>queue_eta\<close> is reported as 1, the initial value of \<^verbatim>\<open>queue_duration\<close>.
\<close>

theorem snapshot_before_first_cycle:
  "avg_event_process_time (get_estimation
      ((Queue_init live c g i m deps)\<lparr>event_queue := evs, active_jobs := jobs\<rparr>)) = None
   \<and> avg_event_concurrent_process_time (get_estimation
      ((Queue_init live c g i m deps)\<lparr>event_queue := evs, active_jobs := jobs\<rparr>)) = None
   \<and> rank_eta (get_estimation
      ((Queue_init live c g i m deps)\<lparr>event_queue := evs, active_jobs := jobs\<rparr>)) = None
   \<and> queue_eta (get_estimation
      ((Queue_init live c g i m deps)\<lparr>event_queue := evs, active_jobs := jobs\<rparr>)) = 1
   \<and> estimation_with_rank
        ((Queue_init live c g i m deps)\<lparr>event_queue := evs, active_jobs := jobs\<rparr>)
        (get_estimation
          ((Queue_init live c g i m deps)\<lparr>event_queue := evs, active_jobs := jobs\<rparr>)) rnk
      = Inr ((get_estimation
          ((Queue_init live c g i m deps)\<lparr>event_queue := evs, active_jobs := jobs\<rparr>))
             \<lparr>rank := Some rnk\<rparr>)"
  by (simp add: Queue_init_def get_estimation_def estimation_with_rank_def int_validator_def)

text \<open>
  The claim C9 as stated fails for \<^verbatim>\<open>queue_eta\<close>: the snapshot of a queue fresh from
  \<^verbatim>\<open>__init__\<close> reports the number 1.
\<close>

theorem snapshot_before_first_cycle_counterexample:
  "queue_eta (get_estimation (Queue_init False 1 0 1 None [])) = 1"
  by (simp add: Queue_init_def get_estimation_def int_validator_def)

text \<open>
  C10. The claim: the \<^verbatim>\<open>rank_eta\<close> and \<^verbatim>\<open>queue_eta\<close> fields delivered to clients are
  integers, the computed real values being coerced to \<^verbatim>\<open>int\<close> by the field types of the
  model. The code at this input: a queue with a concurrency limit of 1 and one pending
  event has completed one cycle of 3/2 seconds, and a snapshot is sent for rank 0. The
  field \<^verbatim>\<open>queue_eta: int\<close> goes through the constructor and is delivered as 1; the field
  \<^verbatim>\<open>rank_eta: Optional[int]\<close> is assigned after construction, is not converted, and is
  delivered as 3/2, against its own declaration.
\<close>

theorem rank_eta_delivered_unconverted:
  "map_sum id queue_eta
     (fst (send_estimation (test_env all_sent (single_answer (Inl RequestError)))
             (mk_event 0 0) (get_estimation estimated_queue) 0 (test_world estimated_queue)))
     = Inr 1
   \<and> map_sum id rank_eta
     (fst (send_estimation (test_env all_sent (single_answer (Inl RequestError)))
             (mk_event 0 0) (get_estimation estimated_queue) 0 (test_world estimated_queue)))
     = Inr (Some (3 / 2))
   \<and> queue_duration estimated_queue = 3 / 2
   \<and> (3 / 2 :: real) \<notin> \<int>"
  by (simp add: send_estimation_def estimation_with_rank_def get_estimation_def
        estimated_queue_def test_queue_def Queue_init_def update_estimation_def Let_def
        test_world_def test_env_def send_message_def all_sent_def int_validator_def
        split_beta)

section \<open>Batch formation\<close>

lemma remove_each_skip:
  "x \<notin> set sel \<Longrightarrow>
     remove_each sel (x # xs) = (fst (remove_each sel xs), x # snd (remove_each sel xs))"
proof (induction sel arbitrary: xs)
  case Nil
  then show ?case by simp
next
  case (Cons y sel)
  then have ne: "y \<noteq> x" and notin: "x \<notin> set sel" by auto
  show ?case
  proof (cases "y \<in> set xs")
    case True
    then show ?thesis
      using ne Cons.IH[OF notin, of "remove1 y xs"] by (simp add: deque_remove_def)
  next
    case False
    then show ?thesis using ne by (simp add: deque_remove_def)
  qed
qed

lemma scan_select_take_filter: "fst (scan_select n P xs) = take n (filter P xs)"
proof (induction xs arbitrary: n)
  case Nil
  then show ?case by simp
next
  case (Cons x xs)
  show ?case
  proof (cases "0 < n \<and> P x")
    case True
    then obtain n' where n: "n = Suc n'" by (cases n) auto
    show ?thesis using True n Cons.IH[of n'] by (simp add: split_beta)
  next
    case False
    then show ?thesis using Cons.IH[of n] by (auto simp: split_beta)
  qed
qed

lemma remove_each_scan_select:
  "remove_each (take n (filter P xs)) xs = (None, snd (scan_select n P xs))"
proof (induction xs arbitrary: n)
  case Nil
  then show ?case by simp
next
  case (Cons x xs)
  show ?case
  proof (cases "0 < n \<and> P x")
    case True
    then obtain n' where n: "n = Suc n'" by (cases n) auto
    show ?thesis using True n Cons.IH[of n'] by (simp add: split_beta deque_remove_def)
  next
    case False
    have notin: "x \<notin> set (take n (filter P xs))"
    proof (cases "n = 0")
      case True
      then show ?thesis by simp
    next
      case False
      with \<open>\<not> (0 < n \<and> P x)\<close> have "\<not> P x" by simp
      then show ?thesis by (auto dest: in_set_takeD)
    qed
    have eq: "take n (filter P (x # xs)) = take n (filter P xs)"
      using False by (cases "n = 0") auto
    show ?thesis
      using False eq remove_each_skip[OF notin, of xs] Cons.IH[of n]
      by (auto simp: split_beta)
  qed
qed

lemma scan_select_length: "length (fst (scan_select n P xs)) \<le> n"
  by (simp add: scan_select_take_filter)

lemma scan_select_all: "e \<in> set (fst (scan_select n P xs)) \<Longrightarrow> P e"
  by (auto simp: scan_select_take_filter dest: in_set_takeD)

lemma scan_select_subseq_fst: "subseq (fst (scan_select n P xs)) xs"
  by (induction xs arbitrary: n) (auto simp: split_beta)

lemma scan_select_subseq_snd: "subseq (snd (scan_select n P xs)) xs"
  by (induction xs arbitrary: n) (auto simp: split_beta)

lemma scan_select_mset:
  "mset (fst (scan_select n P xs)) + mset (snd (scan_select n P xs)) = mset xs"
  by (induction xs arbitrary: n) (auto simp: split_beta)

text \<open>
  C3, as the code has it. For every non-empty queue whose front event targets a
  batching-enabled endpoint with max batch size \<open>k \<ge> 1\<close>, \<^verbatim>\<open>get_events_in_batch\<close> returns
  a batch of size at most \<open>k\<close> whose first element is the former front event, followed by
  the first \<open>k - 1\<close> events of the remaining queue with the same endpoint index, in queue
  order; all members share that endpoint index; exactly the selected events leave the
  queue and the events left keep their relative order. On an empty queue it returns
  \<^verbatim>\<open>(None, False)\<close> and raises nothing.
\<close>

theorem batch_extraction:
  "(event_queue q = first_event # rest
      \<and> py_getitem (blocks_dependencies q) (fn_index first_event) = Inr dep
      \<and> dep_batch dep = Some True \<and> dep_max_batch_size dep = Some k \<and> 1 \<le> k
    \<longrightarrow> (\<exists>sel left.
           scan_select (nat (k - 1)) (\<lambda>e. fn_index e = fn_index first_event) rest = (sel, left)
         \<and> get_events_in_batch q
             = (Inr (Some (first_event # sel), True), q\<lparr>event_queue := left\<rparr>)
         \<and> int (length (first_event # sel)) \<le> k
         \<and> (\<forall>e \<in> set (first_event # sel). fn_index e = fn_index first_event)
         \<and> subseq (first_event # sel) (event_queue q)
         \<and> subseq left (event_queue q)
         \<and> mset (first_event # sel) + mset left = mset (event_queue q)))
   \<and> (event_queue q = [] \<longrightarrow> get_events_in_batch q = (Inr (None, False), q))"
proof (intro conjI impI)
  assume a: "event_queue q = first_event # rest
      \<and> py_getitem (blocks_dependencies q) (fn_index first_event) = Inr dep
      \<and> dep_batch dep = Some True \<and> dep_max_batch_size dep = Some k \<and> 1 \<le> k"
  let ?P = "\<lambda>e. fn_index e = fn_index first_event"
  let ?n = "nat (k - 1)"
  obtain sel left where sl: "scan_select ?n ?P rest = (sel, left)"
    by (cases "scan_select ?n ?P rest")
  have sel: "sel = take ?n (filter ?P rest)"
    using scan_select_take_filter[of ?n ?P rest] sl by simp
  have slice: "py_slice_to (filter ?P rest) (k - 1) = sel"
    using a sel by (simp add: py_slice_to_def)
  have rem: "remove_each sel rest = (None, left)"
    using remove_each_scan_select[of ?n ?P rest] sl sel by simp
  have run: "get_events_in_batch q
      = (Inr (Some (first_event # sel), True), q\<lparr>event_queue := left\<rparr>)"
    using a slice rem by (simp add: get_events_in_batch_def Let_def)
  have len: "int (length (first_event # sel)) \<le> k"
  proof -
    have "length sel \<le> nat (k - 1)"
      using scan_select_length[of ?n ?P rest] sl by simp
    moreover have "1 \<le> k" using a by simp
    ultimately show ?thesis by simp
  qed
  have same: "\<forall>e \<in> set (first_event # sel). fn_index e = fn_index first_event"
    using scan_select_all[of _ ?n ?P rest] sl by auto
  have sub1: "subseq (first_event # sel) (event_queue q)"
    using scan_select_subseq_fst[of ?n ?P rest] sl a by simp
  have sub2: "subseq left (event_queue q)"
    using scan_select_subseq_snd[of ?n ?P rest] sl a by (auto intro: list_emb_Cons)
  have ms: "mset (first_event # sel) + mset left = mset (event_queue q)"
    using scan_select_mset[of ?n ?P rest] sl a by simp
  show "\<exists>sel left.
           scan_select (nat (k - 1)) (\<lambda>e. fn_index e = fn_index first_event) rest = (sel, left)
         \<and> get_events_in_batch q
             = (Inr (Some (first_event # sel), True), q\<lparr>event_queue := left\<rparr>)
         \<and> int (length (first_event # sel)) \<le> k
         \<and> (\<forall>e \<in> set (first_event # sel). fn_index e = fn_index first_event)
         \<and> subseq (first_event # sel) (event_queue q)
         \<and> subseq left (event_queue q)
         \<and> mset (first_event # sel) + mset left = mset (event_queue q)"
    using sl run len same sub1 sub2 ms by blast
next
  assume "event_queue q = []"
  then show "get_events_in_batch q = (Inr (None, False), q)"
    by (simp add: get_events_in_batch_def)
qed

theorem batch_extraction_witness:
  "get_events_in_batch
     ((Queue_init False 1 0 1 None
         (replicate 5 \<lparr>dep_batch = Some False, dep_max_batch_size = Some 4\<rparr>
          @ [\<lparr>dep_batch = Some True, dep_max_batch_size = Some 2\<rparr>]))
        \<lparr>event_queue := [mk_event 0 5, mk_event 1 3, mk_event 2 5, mk_event 3 5]\<rparr>)
     = (Inr (Some [mk_event 0 5, mk_event 2 5], True),
        (Queue_init False 1 0 1 None
           (replicate 5 \<lparr>dep_batch = Some False, dep_max_batch_size = Some 4\<rparr>
            @ [\<lparr>dep_batch = Some True, dep_max_batch_size = Some 2\<rparr>]))
          \<lparr>event_queue := [mk_event 1 3, mk_event 3 5]\<rparr>)
   \<and> get_events_in_batch (Queue_init False 1 0 1 None [])
     = (Inr (None, False), Queue_init False 1 0 1 None [])"
proof -
  let ?deps = "replicate 5 \<lparr>dep_batch = Some False, dep_max_batch_size = Some 4\<rparr>
          @ [\<lparr>dep_batch = Some True, dep_max_batch_size = Some 2\<rparr>]"
  let ?q = "(Queue_init False 1 0 1 None ?deps)
        \<lparr>event_queue := [mk_event 0 5, mk_event 1 3, mk_event 2 5, mk_event 3 5]\<rparr>"
  have h: "event_queue ?q = mk_event 0 5 # [mk_event 1 3, mk_event 2 5, mk_event 3 5]
      \<and> py_getitem (blocks_dependencies ?q) (fn_index (mk_event 0 5))
          = Inr \<lparr>dep_batch = Some True, dep_max_batch_size = Some 2\<rparr>
      \<and> dep_batch \<lparr>dep_batch = Some True, dep_max_batch_size = Some 2\<rparr> = Some True
      \<and> dep_max_batch_size \<lparr>dep_batch = Some True, dep_max_batch_size = Some 2\<rparr> = Some 2
      \<and> (1::int) \<le> 2"
    by (simp add: Queue_init_def mk_event_def py_getitem_def nth_append)
  have s: "scan_select (nat (2 - 1)) (\<lambda>e. fn_index e = fn_index (mk_event 0 5))
             [mk_event 1 3, mk_event 2 5, mk_event 3 5]
           = ([mk_event 2 5], [mk_event 1 3, mk_event 3 5])"
    by (simp add: mk_event_def)
  have e: "event_queue (Queue_init False 1 0 1 None []) = []"
    by (simp add: Queue_init_def)
  show ?thesis
    using batch_extraction
            [where q = ?q and first_event = "mk_event 0 5"
               and rest = "[mk_event 1 3, mk_event 2 5, mk_event 3 5]"
               and dep = "\<lparr>dep_batch = Some True, dep_max_batch_size = Some 2\<rparr>" and k = 2]
          batch_extraction
            [where q = "Queue_init False 1 0 1 None []" and first_event = "mk_event 0 5"
               and rest = "[]"
               and dep = "\<lparr>dep_batch = Some True, dep_max_batch_size = Some 2\<rparr>" and k = 2]
          h s e
    by simp
qed

text \<open>
  The claim C3 as stated fails for a max batch size of 0: the slice \<^verbatim>\<open>[: batch_size - 1]\<close>
  is then \<^verbatim>\<open>[:-1]\<close>, all matching events but the last, and the batch has two members.
\<close>

theorem batch_extraction_counterexample:
  "get_events_in_batch
     ((Queue_init False 1 0 1 None [\<lparr>dep_batch = Some True, dep_max_batch_size = Some 0\<rparr>])
        \<lparr>event_queue := [mk_event 0 0, mk_event 1 0, mk_event 2 0]\<rparr>)
     = (Inr (Some [mk_event 0 0, mk_event 1 0], True),
        (Queue_init False 1 0 1 None [\<lparr>dep_batch = Some True, dep_max_batch_size = Some 0\<rparr>])
          \<lparr>event_queue := [mk_event 2 0]\<rparr>)
   \<and> \<not> int (length [mk_event 0 0, mk_event 1 0]) \<le> 0"
  by (simp add: get_events_in_batch_def Queue_init_def mk_event_def py_getitem_def
        py_slice_to_def deque_remove_def Let_def)


section \<open>Batch processing\<close>

subsection \<open>What the steps of the \<^verbatim>\<open>try\<close> block leave alone\<close>

lemma quiet_refl [simp]: "quiet w w"
  by (simp add: quiet_def)

lemma quiet_trans: "quiet a b \<Longrightarrow> quiet b c \<Longrightarrow> quiet a c"
  by (simp add: quiet_def)

lemma quiet_slots:
  assumes "quiet w w'"
  shows "active_jobs (queue w') = active_jobs (queue w)"
    and "filter is_release (trace w') = filter is_release (trace w)"
    and "est_state (queue w') = est_state (queue w)"
    and "max_thread_count (queue w') = max_thread_count (queue w)"
proof -
  have e: "(queue w')\<lparr>event_queue := []\<rparr> = (queue w)\<lparr>event_queue := []\<rparr>"
    using assms by (simp add: quiet_def)
  have "active_jobs ((queue w')\<lparr>event_queue := []\<rparr>)
          = active_jobs ((queue w)\<lparr>event_queue := []\<rparr>)"
    by (simp only: e)
  then show "active_jobs (queue w') = active_jobs (queue w)" by simp
  show "filter is_release (trace w') = filter is_release (trace w)"
    using assms by (simp add: quiet_def)
  have "est_state ((queue w')\<lparr>event_queue := []\<rparr>)
          = est_state ((queue w)\<lparr>event_queue := []\<rparr>)"
    by (simp only: e)
  then show "est_state (queue w') = est_state (queue w)" by (simp add: est_state_def)
  have "max_thread_count ((queue w')\<lparr>event_queue := []\<rparr>)
          = max_thread_count ((queue w)\<lparr>event_queue := []\<rparr>)"
    by (simp only: e)
  then show "max_thread_count (queue w') = max_thread_count (queue w)" by simp
qed

lemma count_requests_append [simp]:
  "count_requests (xs @ ys) = count_requests xs + count_requests ys"
  by (simp add: count_requests_def)

lemma count_requests_simps [simp]:
  "count_requests [] = 0"
  "count_requests (a # tr) = (if is_request a then 1 else 0) + count_requests tr"
  by (simp_all add: count_requests_def)

lemma results_for_append [simp]:
  "results_for ev (xs @ ys) = results_for ev xs @ results_for ev ys"
  by (induction ev xs rule: results_for.induct) auto

lemma clean_event_frame:
  "quiet w (clean_event ev w)"
  "trace (clean_event ev w) = trace w"
  "event_data (clean_event ev w) = event_data w"
  by (simp_all add: clean_event_def quiet_def)

lemma send_message_frame:
  "quiet w (snd (send_message env ev m w))"
  "trace (snd (send_message env ev m w))
     = trace w @ [SendJson ev m (send_json env (length (trace w)))]"
  "event_data (snd (send_message env ev m w)) = event_data w"
  "fst (send_message env ev m w) = send_json env (length (trace w))"
  by (simp_all add: send_message_def clean_event_def quiet_def Let_def)

lemma get_message_frame:
  "quiet w (snd (get_message env ev w))"
  "count_requests (trace (snd (get_message env ev w))) = count_requests (trace w)"
  by (simp_all add: get_message_def clean_event_def quiet_def Let_def split: option.splits)

lemma gather_event_data_frame:
  "quiet w (snd (gather_event_data env ev w))"
  "count_requests (trace (snd (gather_event_data env ev w))) = count_requests (trace w)"
proof -
  let ?w1 = "snd (send_message env ev SendData w)"
  let ?w2 = "snd (get_message env ev ?w1)"
  have q1: "quiet w ?w1" by (rule send_message_frame)
  have q2: "quiet ?w1 ?w2" by (rule get_message_frame)
  have q3: "quiet ?w2 (?w2\<lparr>event_data := (event_data ?w2)(ident ev := fst (get_message env ev ?w1))\<rparr>)"
    by (simp add: quiet_def)
  show "quiet w (snd (gather_event_data env ev w))"
    using q1 quiet_trans[OF q1 quiet_trans[OF q2 q3]]
    by (simp add: gather_event_data_def split_beta Let_def)
  show "count_requests (trace (snd (gather_event_data env ev w))) = count_requests (trace w)"
    by (simp add: gather_event_data_def split_beta Let_def get_message_frame
          send_message_frame)
qed

lemma gather_awake_frame:
  "quiet w (snd (gather_awake env evs awake w))
   \<and> count_requests (trace (snd (gather_awake env evs awake w))) = count_requests (trace w)"
proof (induction evs arbitrary: awake w)
  case Nil
  then show ?case by simp
next
  case (Cons ev evs)
  let ?w1 = "snd (gather_event_data env ev w)"
  let ?w2 = "if fst (gather_event_data env ev w)
             then snd (send_message env ev ProcessStarts ?w1) else ?w1"
  have q1: "quiet w ?w1" by (rule gather_event_data_frame)
  have q2: "quiet ?w1 ?w2" by (simp add: send_message_frame)
  have c2: "count_requests (trace ?w2) = count_requests (trace w)"
    by (simp add: send_message_frame gather_event_data_frame)
  obtain aw where step:
    "gather_awake env (ev # evs) awake w = gather_awake env evs aw ?w2"
    by (cases "fst (gather_event_data env ev w)") (simp_all add: split_beta)
  show ?case
    using Cons.IH[where awake = aw and w = ?w2] quiet_trans[OF quiet_trans[OF q1 q2]] c2 step by simp
qed

lemma send_each_frame:
  "quiet w (send_each env m evs w)
   \<and> count_requests (trace (send_each env m evs w)) = count_requests (trace w)
   \<and> event_data (send_each env m evs w) = event_data w
   \<and> results_for ev (trace (send_each env m evs w))
       = results_for ev (trace w)
         @ (if is_progress m then replicate (count_list evs ev) m else [])"
proof (induction evs arbitrary: w)
  case Nil
  then show ?case by simp
next
  case (Cons e evs)
  let ?w1 = "snd (send_message env e m w)"
  have q1: "quiet w ?w1" by (rule send_message_frame)
  show ?case
    using Cons.IH[of ?w1] quiet_trans[OF q1]
    by (simp add: send_message_frame replicate_app_Cons_same)
qed

lemma call_prediction_frame:
  assumes "call_prediction env evs batch w = (res, w')"
  shows "quiet w w'" and "event_data w' = event_data w"
    and "res = Inr r \<Longrightarrow> last_response env w' r"
    and "res = Inr r \<Longrightarrow> trace w' = trace w @ [PredictRequest evs batch]"
  using assms
  by (auto simp: call_prediction_def quiet_def last_response_def
        split: list.splits option.splits)

lemma last_response_kept:
  "last_response env w r \<Longrightarrow> count_requests (trace w') = count_requests (trace w)
     \<Longrightarrow> last_response env w' r"
  by (simp add: last_response_def)

lemma completed_loop_frame:
  "quiet w (snd (completed_loop env batch resp outp e evs w))
   \<and> count_requests (trace (snd (completed_loop env batch resp outp e evs w)))
       = count_requests (trace w)"
proof (induction evs arbitrary: w outp e)
  case Nil
  then show ?case by simp
next
  case (Cons ev evs)
  have step: "\<And>m out'. quiet w (snd (completed_loop env batch resp out' (Suc e) evs
                                   (snd (send_message env ev m w))))
      \<and> count_requests (trace (snd (completed_loop env batch resp out' (Suc e) evs
                                   (snd (send_message env ev m w)))))
          = count_requests (trace w)"
  proof -
    fix m out'
    let ?w1 = "snd (send_message env ev m w)"
    have q1: "quiet w ?w1" by (rule send_message_frame)
    show "quiet w (snd (completed_loop env batch resp out' (Suc e) evs ?w1))
      \<and> count_requests (trace (snd (completed_loop env batch resp out' (Suc e) evs ?w1)))
          = count_requests (trace w)"
      using Cons.IH[where w = ?w1 and outp = out' and e = "Suc e"] quiet_trans[OF q1]
      by (simp add: send_message_frame)
  qed
  show ?case
    using step by (auto simp: Let_def split: sum.splits)
qed


lemma generating_loop_frame:
  assumes "generating_loop env awake batch ev resp old w = Some y"
  shows "quiet w (snd y)
   \<and> (last_response env w resp \<longrightarrow>
        (\<forall>r ol. fst y = LoopDone r ol \<longrightarrow> last_response env (snd y) r))"
proof (rule generating_loop.raw_induct
         [where P = "\<lambda>env awake batch ev resp old w y.
             quiet w (snd y)
           \<and> (last_response env w resp \<longrightarrow>
                (\<forall>r ol. fst y = LoopDone r ol \<longrightarrow> last_response env (snd y) r))",
          OF _ assms], goal_cases)
  case (1 loop env awake batch ev resp old w y)
  show ?case
  proof (cases "dict_get (json resp) ''is_generating'' (JBool False)")
    case (Inl err)
    then show ?thesis using 1(2) by auto
  next
    case g: (Inr g)
    show ?thesis
    proof (cases "truthy g")
      case False
      then show ?thesis using 1(2) g by auto
    next
      case True
      let ?a = "if version_lt_38 env then send_message env ev Alive w else (True, w)"
      let ?w1 = "snd ?a"
      have q1: "quiet w ?w1" by (simp add: send_message_frame)
      show ?thesis
      proof (cases "fst ?a")
        case False
        then have "y = (LoopReturn, ?w1)"
          using 1(2) g True by (simp add: split_beta)
        then show ?thesis using q1 by simp
      next
        case alive: True
        let ?w2 = "send_each env (ProcessGenerating (json resp) (status resp = 200)) awake ?w1"
        let ?ev' = "if awake = [] then ev else last awake"
        have q2: "quiet ?w1 ?w2" using send_each_frame by blast
        obtain res w3 where cp: "call_prediction env awake batch ?w2 = (res, w3)"
          by (cases "call_prediction env awake batch ?w2")
        have q3: "quiet ?w2 w3" using call_prediction_frame(1)[OF cp] .
        have q: "quiet w w3" using quiet_trans[OF q1 quiet_trans[OF q2 q3]] .
        show ?thesis
        proof (cases res)
          case (Inl err)
          then have "y = (LoopRaise err, w3)"
            using 1(2) g True alive cp by (simp add: split_beta Let_def)
          then show ?thesis using q by simp
        next
          case r: (Inr resp')
          then have rec: "loop env awake batch ?ev' resp' (Some resp) w3 = Some y"
            using 1(2) g True alive cp by (simp add: split_beta Let_def)
          have lr: "last_response env w3 resp'"
            using call_prediction_frame(3)[OF cp r] .
          from 1(1)[OF rec] lr q show ?thesis
            using quiet_trans by blast
        qed
      qed
    qed
  qed
qed

lemma finish_cycle_frame:
  assumes "finish_cycle env bt r w = (out, w')"
  shows "trace w' = trace w" and "active_jobs (queue w') = active_jobs (queue w)"
    and "event_data w' = event_data w"
  using assms
  by (auto simp: finish_cycle_def update_estimation_def Let_def split: if_splits prod.splits option.splits)

text \<open>
  The shape of every run of the \<^verbatim>\<open>try\<close> block: quiet steps, followed or not by the two
  closing statements on the answer to the latest prediction request.
\<close>

lemma process_events_try_shape:
  assumes "process_events_try env events batch w = Some (out, awake, wt)"
  shows "awake = fst (gather_awake env events [] w)"
    and "quiet w wt
       \<or> (\<exists>r w3. quiet w w3 \<and> last_response env w3 r
            \<and> finish_cycle env
                 (time env (length (trace (snd (gather_awake env events [] w))))) r w3
                = (out, wt))"
proof -
  obtain aw w1 where ga: "gather_awake env events [] w = (aw, w1)"
    by (cases "gather_awake env events [] w")
  have q1: "quiet w w1" using gather_awake_frame[of w env events "[]"] ga by simp
  let ?bt = "time env (length (trace w1))"
  have both: "awake = aw \<and> (quiet w wt
       \<or> (\<exists>r w3. quiet w w3 \<and> last_response env w3 r
            \<and> finish_cycle env ?bt r w3 = (out, wt)))"
  proof (cases "aw = []")
    case True
    then show ?thesis using assms ga q1 by (simp add: process_events_try_def)
  next
    case ne: False
    obtain res w2 where cp: "call_prediction env aw batch w1 = (res, w2)"
      by (cases "call_prediction env aw batch w1")
    have q2: "quiet w w2" using quiet_trans[OF q1 call_prediction_frame(1)[OF cp]] .
    show ?thesis
    proof (cases res)
      case (Inl err)
      then show ?thesis
        using assms ga ne cp q2 by (simp add: process_events_try_def)
    next
      case r: (Inr resp)
      have lr: "last_response env w2 resp" using call_prediction_frame(3)[OF cp r] .
      show ?thesis
      proof (cases "has_exception resp")
        case True
        let ?w3 = "send_each env
                     (ProcessCompleted (JDict [(''error'', JStr (exception resp))]) False) aw w2"
        have s: "quiet w2 ?w3" "count_requests (trace ?w3) = count_requests (trace w2)"
          using send_each_frame by blast+
        have "quiet w ?w3" using quiet_trans[OF q2 s(1)] .
        moreover have "last_response env ?w3 resp" using last_response_kept[OF lr s(2)] .
        moreover have "finish_cycle env ?bt resp ?w3 = (out, wt) \<and> awake = aw"
          using assms ga ne cp r True
          by (simp add: process_events_try_def Let_def split: prod.splits)
        ultimately show ?thesis by blast
      next
        case noexc: False
        show ?thesis
        proof (cases "dict_get (json resp) ''is_generating'' (JBool False)")
          case (Inl err)
          then show ?thesis
            using assms ga ne cp r noexc q2 by (simp add: process_events_try_def)
        next
          case g: (Inr g)
          show ?thesis
          proof (cases "truthy g")
            case True
            obtain ex w3 where gl:
              "generating_loop env aw batch (last events) resp None w2 = Some (ex, w3)"
              using assms ga ne cp r noexc g True
              by (auto simp: process_events_try_def split: option.splits)
            have f: "quiet w2 w3"
              "\<forall>r ol. ex = LoopDone r ol \<longrightarrow> last_response env w3 r"
              using generating_loop_frame[OF gl] lr by simp_all
            have q3: "quiet w w3" using quiet_trans[OF q2 f(1)] .
            show ?thesis
            proof (cases ex)
              case (LoopDone resp' ol)
              show ?thesis
              proof (cases ol)
                case None
                then show ?thesis
                  using assms ga ne cp r noexc g True gl LoopDone q3
                  by (simp add: process_events_try_def)
              next
                case (Some old_response)
                let ?w4 = "send_each env
                     (ProcessCompleted (json old_response) (status old_response = 200)) aw w3"
                have s: "quiet w3 ?w4" "count_requests (trace ?w4) = count_requests (trace w3)"
                  using send_each_frame by blast+
                have "quiet w ?w4" using quiet_trans[OF q3 s(1)] .
                moreover have "last_response env ?w4 resp'"
                  using last_response_kept[OF _ s(2)] f(2) LoopDone by blast
                moreover have "finish_cycle env ?bt resp' ?w4 = (out, wt) \<and> awake = aw"
                  using assms ga ne cp r noexc g True gl LoopDone Some
                  by (simp add: process_events_try_def Let_def split: prod.splits)
                ultimately show ?thesis by blast
              qed
            next
              case LoopReturn
              then show ?thesis
                using assms ga ne cp r noexc g True gl q3
                by (simp add: process_events_try_def)
            next
              case (LoopRaise err)
              then show ?thesis
                using assms ga ne cp r noexc g True gl q3
                by (simp add: process_events_try_def)
            qed
          next
            case ng: False
            show ?thesis
            proof (cases "json resp")
              case (JDict outp)
              obtain cerr w3 where cl:
                "completed_loop env batch resp outp 0 aw w2 = (cerr, w3)"
                by (cases "completed_loop env batch resp outp 0 aw w2")
              have s: "quiet w2 w3" "count_requests (trace w3) = count_requests (trace w2)"
                using completed_loop_frame[of w2 env batch resp outp 0 aw] cl by simp_all
              have q3: "quiet w w3" using quiet_trans[OF q2 s(1)] .
              show ?thesis
              proof (cases cerr)
                case (Some err)
                then show ?thesis
                  using assms ga ne cp r noexc g ng JDict cl q3
                  by (simp add: process_events_try_def)
              next
                case None
                have "last_response env w3 resp" using last_response_kept[OF lr s(2)] .
                moreover have "finish_cycle env ?bt resp w3 = (out, wt) \<and> awake = aw"
                  using assms ga ne cp r noexc g ng JDict cl None
                  by (simp add: process_events_try_def Let_def split: prod.splits)
                ultimately show ?thesis using q3 by blast
              qed
            qed (use assms ga ne cp r noexc g ng q2 in
                  \<open>simp_all add: process_events_try_def\<close>)
          qed
        qed
      qed
    qed
  qed
  show "awake = fst (gather_awake env events [] w)" using both ga by simp
  show "quiet w wt
       \<or> (\<exists>r w3. quiet w w3 \<and> last_response env w3 r
            \<and> finish_cycle env
                 (time env (length (trace (snd (gather_awake env events [] w))))) r w3
                = (out, wt))"
    using both ga by simp
qed


subsection \<open>The \<^verbatim>\<open>finally\<close> block and the slot\<close>

lemma disconnect_each_frame:
  "queue (snd (disconnect_each env evs w)) = queue w
   \<and> event_data (snd (disconnect_each env evs w)) = event_data w
   \<and> filter is_release (trace (snd (disconnect_each env evs w))) = filter is_release (trace w)
   \<and> results_for ev (trace (snd (disconnect_each env evs w))) = results_for ev (trace w)"
  by (induction evs arbitrary: w) (simp_all add: Let_def split: option.splits)

lemma disconnect_each_caught:
  assumes "\<And>k err. close env k = Some err
             \<Longrightarrow> caught_by_except_Exception (version_lt_38 env) err"
  shows "fst (disconnect_each env evs w) = None"
  using assms by (induction evs arbitrary: w) (simp_all add: Let_def split: option.splits)

lemma reset_each_frame:
  "quiet w (snd (reset_each env evs w))
   \<and> results_for ev (trace (snd (reset_each env evs w))) = results_for ev (trace w)"
proof (induction evs arbitrary: w)
  case Nil
  then show ?case by simp
next
  case (Cons e evs)
  let ?w1 = "clean_event e w"
  let ?w2 = "?w1\<lparr>trace := trace ?w1 @ [ResetRequest (session_hash e) (fn_index e)]\<rparr>"
  have q: "quiet w ?w2"
    using clean_event_frame(1)[of w e] by (simp add: quiet_def clean_event_frame)
  have r: "results_for ev (trace ?w2) = results_for ev (trace w)"
    by (simp add: clean_event_frame)
  show ?case
    using Cons.IH[of ?w2] q r quiet_trans[OF q]
    by (auto simp: Let_def split: option.splits)
qed

lemma list_index_Inr:
  "list_index xs x = Inr i \<Longrightarrow> i < length xs \<and> xs ! i = x"
  by (induction xs arbitrary: i) (auto split: if_splits sum.splits)

lemma list_index_claimed:
  "list_index xs None = Inr i \<Longrightarrow> Some evs \<notin> set xs
     \<Longrightarrow> list_index (xs[i := Some evs]) (Some evs) = Inr i"
proof (induction xs arbitrary: i)
  case Nil
  then show ?case by simp
next
  case (Cons y ys)
  show ?case
  proof (cases "y = None")
    case True
    then show ?thesis using Cons.prems by simp
  next
    case False
    then obtain j where j: "list_index ys None = Inr j" "i = Suc j"
      using Cons.prems(1) by (auto split: sum.splits)
    then show ?thesis using Cons.IH[OF j(1)] Cons.prems(2) False by auto
  qed
qed

lemma process_events_finally_frame:
  assumes "process_events_finally env events awake w = (ferr, w')"
  shows "est_state (queue w') = est_state (queue w)"
    and "results_for ev (trace w') = results_for ev (trace w)"
    and "fst (disconnect_each env awake w) = None
         \<Longrightarrow> list_index (active_jobs (queue w)) (Some events) = Inr i
         \<Longrightarrow> active_jobs (queue w') = (active_jobs (queue w))[i := None]
           \<and> filter is_release (trace w') = filter is_release (trace w) @ [SlotRelease i]"
    and "fst (disconnect_each env awake w) = Some err
         \<Longrightarrow> ferr = Some err \<and> active_jobs (queue w') = active_jobs (queue w)
           \<and> filter is_release (trace w') = filter is_release (trace w)"
proof -
  obtain derr w1 where de: "disconnect_each env awake w = (derr, w1)"
    by (cases "disconnect_each env awake w")
  have d: "queue w1 = queue w" "filter is_release (trace w1) = filter is_release (trace w)"
    "results_for ev (trace w1) = results_for ev (trace w)"
    using disconnect_each_frame[of env awake w ev] de by simp_all
  have esc: "w' = w1 \<and> ferr = derr" if "derr \<noteq> None"
    using that assms de by (auto simp: process_events_finally_def)
  have noix: "w' = w1" if "derr = None"
    and "list_index (active_jobs (queue w1)) (Some events) = Inl e" for e
    using that assms de by (simp add: process_events_finally_def)
  have ix: "w' = snd (reset_each env awake
              (w1\<lparr>queue := (queue w1)\<lparr>active_jobs := (active_jobs (queue w1))[j := None]\<rparr>,
                  trace := trace w1 @ [SlotRelease j]\<rparr>))"
    if "derr = None" and "list_index (active_jobs (queue w1)) (Some events) = Inr j" for j
    using that assms de by (simp add: process_events_finally_def)
  show "est_state (queue w') = est_state (queue w)"
  proof (cases "derr = None")
    case False
    then show ?thesis using esc d by simp
  next
    case True
    show ?thesis
    proof (cases "list_index (active_jobs (queue w1)) (Some events)")
      case (Inl e)
      then show ?thesis using noix[OF True] d by simp
    next
      case (Inr j)
      let ?w2 = "w1\<lparr>queue := (queue w1)\<lparr>active_jobs := (active_jobs (queue w1))[j := None]\<rparr>,
                    trace := trace w1 @ [SlotRelease j]\<rparr>"
      have "quiet ?w2 (snd (reset_each env awake ?w2))" using reset_each_frame by blast
      then have "est_state (queue (snd (reset_each env awake ?w2))) = est_state (queue ?w2)"
        by (rule quiet_slots)
      then show ?thesis using ix[OF True Inr] d by (simp add: est_state_def)
    qed
  qed
  show "results_for ev (trace w') = results_for ev (trace w)"
  proof (cases "derr = None")
    case False
    then show ?thesis using esc d by simp
  next
    case True
    show ?thesis
    proof (cases "list_index (active_jobs (queue w1)) (Some events)")
      case (Inl e)
      then show ?thesis using noix[OF True] d by simp
    next
      case (Inr j)
      let ?w2 = "w1\<lparr>queue := (queue w1)\<lparr>active_jobs := (active_jobs (queue w1))[j := None]\<rparr>,
                    trace := trace w1 @ [SlotRelease j]\<rparr>"
      have "results_for ev (trace (snd (reset_each env awake ?w2))) = results_for ev (trace ?w2)"
        using reset_each_frame by blast
      then show ?thesis using ix[OF True Inr] d by simp
    qed
  qed
  show "active_jobs (queue w') = (active_jobs (queue w))[i := None]
         \<and> filter is_release (trace w') = filter is_release (trace w) @ [SlotRelease i]"
    if none: "fst (disconnect_each env awake w) = None"
      and li: "list_index (active_jobs (queue w)) (Some events) = Inr i"
  proof -
    let ?w2 = "w1\<lparr>queue := (queue w1)\<lparr>active_jobs := (active_jobs (queue w1))[i := None]\<rparr>,
                    trace := trace w1 @ [SlotRelease i]\<rparr>"
    have dn: "derr = None" using none de by simp
    have w': "w' = snd (reset_each env awake ?w2)"
      using ix[OF dn] li d by simp
    have q: "quiet ?w2 w'" using reset_each_frame w' by blast
    have "active_jobs (queue w') = active_jobs (queue ?w2)"
      using q by (rule quiet_slots)
    moreover have "filter is_release (trace w') = filter is_release (trace ?w2)"
      using q by (rule quiet_slots)
    ultimately show ?thesis using d by simp
  qed
  show "ferr = Some err \<and> active_jobs (queue w') = active_jobs (queue w)
           \<and> filter is_release (trace w') = filter is_release (trace w)"
    if "fst (disconnect_each env awake w) = Some err"
    using that esc de d by simp
qed

lemma get_events_in_batch_front:
  assumes "get_events_in_batch q = (Inr (Some events, batch), q')"
  shows "active_jobs q' = active_jobs q" and "events \<noteq> []"
    and "event_queue q \<noteq> []" and "hd events = hd (event_queue q)"
  using assms
  by (auto simp: get_events_in_batch_def Let_def
        split: list.splits sum.splits option.splits if_splits prod.splits)

lemma dispatched_slot:
  assumes "start_processing_iteration q = (Dispatched events batch i, q1)"
  shows "list_index (active_jobs q) None = Inr i"
    and "active_jobs q1 = (active_jobs q)[i := Some events]"
    and "events \<noteq> []" and "hd events \<in> set (event_queue q)"
proof -
  obtain q' where g: "get_events_in_batch q = (Inr (Some events, batch), q')"
    and ix: "list_index (active_jobs q') None = Inr i"
    and q1: "q1 = q'\<lparr>active_jobs := (active_jobs q')[i := Some events]\<rparr>"
    using assms
    by (auto simp: start_processing_iteration_def
          split: if_splits prod.splits sum.splits option.splits)
  note f = get_events_in_batch_front[OF g]
  show "list_index (active_jobs q) None = Inr i" using ix f(1) by simp
  show "active_jobs q1 = (active_jobs q)[i := Some events]" using q1 f(1) by simp
  show "events \<noteq> []" using f(2) .
  show "hd events \<in> set (event_queue q)" using f(3,4) by simp
qed

lemma owned_batch_fresh:
  assumes "exclusively_owned q" and "events \<noteq> []" and "hd events \<in> set (event_queue q)"
  shows "Some events \<notin> set (active_jobs q)"
proof
  assume "Some events \<in> set (active_jobs q)"
  then have "list_all (\<lambda>e. e \<notin> set (event_queue q)) events"
    using assms(1) by (auto simp: exclusively_owned_def list_all_iff)
  then have "hd events \<notin> set (event_queue q)"
    using assms(2) by (cases events) simp_all
  then show False using assms(3) by simp
qed

text \<open>
  The slot is released on every run in which no close of the \<^verbatim>\<open>finally\<close> block raises an
  exception that \<^verbatim>\<open>except Exception\<close> lets through. Let the dispatcher store a batch in the
  first free cell \<open>i\<close> of \<^verbatim>\<open>active_jobs\<close>, in a state that respects the ownership rule of
  the data model. Then whenever \<^verbatim>\<open>process_events\<close> finishes for that batch, whichever way
  control left the \<^verbatim>\<open>try\<close> block, cell \<open>i\<close> was set back to \<^verbatim>\<open>None\<close> exactly once, no other
  cell was touched, and cell \<open>i\<close> is empty afterwards.
\<close>

lemma slot_released_unless_close_escapes:
  assumes "exclusively_owned q"
      and "start_processing_iteration q = (Dispatched events batch i, queue w)"
      and "process_events env events batch w = Some (res, w')"
      and "\<And>k err. close env k = Some err
             \<Longrightarrow> caught_by_except_Exception (version_lt_38 env) err"
  shows "i < length (active_jobs (queue w'))
       \<and> active_jobs (queue w) ! i = Some events
       \<and> active_jobs (queue w') ! i = None
       \<and> active_jobs (queue w') = (active_jobs (queue w))[i := None]
       \<and> filter is_release (trace w') = filter is_release (trace w) @ [SlotRelease i]"
proof -
  note d = dispatched_slot[OF assms(2)]
  have fresh: "Some events \<notin> set (active_jobs q)"
    using owned_batch_fresh[OF assms(1) d(3,4)] .
  have ix: "list_index (active_jobs (queue w)) (Some events) = Inr i"
    using list_index_claimed[OF d(1) fresh] d(2) by simp
  have bound: "i < length (active_jobs (queue w))" "active_jobs (queue w) ! i = Some events"
    using list_index_Inr[OF ix] by simp_all
  obtain out awake wt where t: "process_events_try env events batch w = Some (out, awake, wt)"
    using assms(3) by (auto simp: process_events_def split: option.splits)
  obtain ferr where f: "process_events_finally env events awake wt = (ferr, w')"
    using assms(3) t by (auto simp: process_events_def Let_def split: prod.splits)
  have kept: "active_jobs (queue wt) = active_jobs (queue w)
      \<and> filter is_release (trace wt) = filter is_release (trace w)"
    using process_events_try_shape(2)[OF t]
  proof
    assume "quiet w wt"
    then show ?thesis using quiet_slots(1,2) by blast
  next
    assume "\<exists>r w3. quiet w w3 \<and> last_response env w3 r
        \<and> finish_cycle env (time env (length (trace (snd (gather_awake env events [] w))))) r w3
            = (out, wt)"
    then obtain r w3 where q: "quiet w w3"
      and fc: "finish_cycle env (time env (length (trace (snd (gather_awake env events [] w)))))
                 r w3 = (out, wt)"
      by blast
    show ?thesis using quiet_slots(1,2)[OF q] finish_cycle_frame(1,2)[OF fc] by simp
  qed
  have ix': "list_index (active_jobs (queue wt)) (Some events) = Inr i"
    using ix kept by simp
  have none: "fst (disconnect_each env awake wt) = None"
    using disconnect_each_caught[of env awake wt] assms(4) by blast
  from process_events_finally_frame(3)[OF f none ix'] kept bound
  show ?thesis by simp
qed


lemmas run_defs =
  process_events_def process_events_try_def process_events_finally_def
  test_env_def test_world_def claimed_queue_def test_queue_def Queue_init_def
  gather_event_data_def send_message_def get_message_def clean_event_def call_prediction_def
  finish_cycle_def update_estimation_def final_response_def failed_response_def
  gen_response_def streaming_answers_def Let_def mk_event_def all_sent_def none_sent_def
  single_answer_def

lemma test_queue_dispatch:
  "exclusively_owned test_queue"
  "start_processing_iteration test_queue
     = (Dispatched [mk_event 0 0] False 0, queue (test_world claimed_queue))"
  by (simp_all add: exclusively_owned_def start_processing_iteration_def test_queue_def
        Queue_init_def get_events_in_batch_def py_getitem_def mk_event_def claimed_queue_def
        test_world_def)

text \<open>
  One run for each way out of the \<^verbatim>\<open>try\<close> block: a single response with status 200, no
  client awake, an upstream error, and an exception of the prediction call.
\<close>

lemma slot_released_runs:
  "exclusively_owned test_queue
   \<and> start_processing_iteration test_queue
       = (Dispatched [mk_event 0 0] False 0, queue (test_world claimed_queue))
   \<and> (\<exists>res w'.
        process_events (test_env all_sent (single_answer (Inr (final_response 200))))
          [mk_event 0 0] False (test_world claimed_queue) = Some (res, w')
      \<and> active_jobs (queue w') = [None] \<and> filter is_release (trace w') = [SlotRelease 0])
   \<and> (\<exists>res w'.
        process_events (test_env none_sent (single_answer (Inr (final_response 200))))
          [mk_event 0 0] False (test_world claimed_queue) = Some (res, w')
      \<and> active_jobs (queue w') = [None] \<and> filter is_release (trace w') = [SlotRelease 0])
   \<and> (\<exists>res w'.
        process_events (test_env all_sent (single_answer (Inr failed_response)))
          [mk_event 0 0] False (test_world claimed_queue) = Some (res, w')
      \<and> active_jobs (queue w') = [None] \<and> filter is_release (trace w') = [SlotRelease 0])
   \<and> (\<exists>res w'.
        process_events (test_env all_sent (single_answer (Inl RequestError)))
          [mk_event 0 0] False (test_world claimed_queue) = Some (res, w')
      \<and> active_jobs (queue w') = [None] \<and> filter is_release (trace w') = [SlotRelease 0])"
proof -
  have init: "active_jobs (queue (test_world claimed_queue)) = [Some [mk_event 0 0]]"
    "trace (test_world claimed_queue) = []"
    by (simp_all add: test_world_def claimed_queue_def)
  have cl: "\<And>sends answers k err. close (test_env sends answers) k = Some err
      \<Longrightarrow> caught_by_except_Exception (version_lt_38 (test_env sends answers)) err"
    by (simp add: test_env_def)
  have r1: "\<exists>res w'. process_events (test_env all_sent (single_answer (Inr (final_response 200))))
          [mk_event 0 0] False (test_world claimed_queue) = Some (res, w')"
    by (simp add: run_defs)
  have r2: "\<exists>res w'. process_events (test_env none_sent (single_answer (Inr (final_response 200))))
          [mk_event 0 0] False (test_world claimed_queue) = Some (res, w')"
    by (simp add: run_defs)
  have r3: "\<exists>res w'. process_events (test_env all_sent (single_answer (Inr failed_response)))
          [mk_event 0 0] False (test_world claimed_queue) = Some (res, w')"
    by (simp add: run_defs)
  have r4: "\<exists>res w'. process_events (test_env all_sent (single_answer (Inl RequestError)))
          [mk_event 0 0] False (test_world claimed_queue) = Some (res, w')"
    by (simp add: run_defs)
  from r1 obtain res1 w1 where p1:
    "process_events (test_env all_sent (single_answer (Inr (final_response 200))))
          [mk_event 0 0] False (test_world claimed_queue) = Some (res1, w1)" by blast
  from r2 obtain res2 w2 where p2:
    "process_events (test_env none_sent (single_answer (Inr (final_response 200))))
          [mk_event 0 0] False (test_world claimed_queue) = Some (res2, w2)" by blast
  from r3 obtain res3 w3 where p3:
    "process_events (test_env all_sent (single_answer (Inr failed_response)))
          [mk_event 0 0] False (test_world claimed_queue) = Some (res3, w3)" by blast
  from r4 obtain res4 w4 where p4:
    "process_events (test_env all_sent (single_answer (Inl RequestError)))
          [mk_event 0 0] False (test_world claimed_queue) = Some (res4, w4)" by blast
  have s1: "active_jobs (queue w1) = [None] \<and> filter is_release (trace w1) = [SlotRelease 0]"
    using slot_released_unless_close_escapes[OF test_queue_dispatch p1 cl] init by simp
  have s2: "active_jobs (queue w2) = [None] \<and> filter is_release (trace w2) = [SlotRelease 0]"
    using slot_released_unless_close_escapes[OF test_queue_dispatch p2 cl] init by simp
  have s3: "active_jobs (queue w3) = [None] \<and> filter is_release (trace w3) = [SlotRelease 0]"
    using slot_released_unless_close_escapes[OF test_queue_dispatch p3 cl] init by simp
  have s4: "active_jobs (queue w4) = [None] \<and> filter is_release (trace w4) = [SlotRelease 0]"
    using slot_released_unless_close_escapes[OF test_queue_dispatch p4 cl] init by simp
  show ?thesis
    using test_queue_dispatch p1 s1 p2 s2 p3 s3 p4 s4 by blast
qed

text \<open>
  C1. The claim: for every batch dispatched into a slot, the cell that holds the batch is
  set back to empty exactly once when \<^verbatim>\<open>process_events\<close> finishes, on every exit path, and
  is empty afterwards. The code at this input: on Python 3.8 or later, one event is
  dispatched into slot 0, the prediction answers with status 200, and the task is
  cancelled while it awaits \<^verbatim>\<open>event.disconnect()\<close> in the \<^verbatim>\<open>finally\<close> block. The
  \<^verbatim>\<open>CancelledError\<close> passes \<^verbatim>\<open>except Exception\<close> and leaves the coroutine before the
  assignment to \<^verbatim>\<open>active_jobs\<close>: slot 0 still holds the batch and nothing was released.
  On an interpreter older than 3.8 the same run swallows the error and releases the slot.
\<close>

theorem slot_kept_by_cancelled_close:
  "exclusively_owned test_queue
   \<and> start_processing_iteration test_queue
       = (Dispatched [mk_event 0 0] False 0, queue (test_world claimed_queue))
   \<and> map_option fst
        (process_events cancelling_env [mk_event 0 0] False (test_world claimed_queue))
       = Some (Some CancelledError)
   \<and> map_option (active_jobs \<circ> queue \<circ> snd)
        (process_events cancelling_env [mk_event 0 0] False (test_world claimed_queue))
       = Some [Some [mk_event 0 0]]
   \<and> map_option (filter is_release \<circ> trace \<circ> snd)
        (process_events cancelling_env [mk_event 0 0] False (test_world claimed_queue))
       = Some []
   \<and> map_option (active_jobs \<circ> queue \<circ> snd)
        (process_events (cancelling_env\<lparr>version_lt_38 := True\<rparr>) [mk_event 0 0] False
           (test_world claimed_queue))
       = Some [None]"
  using test_queue_dispatch
  by (simp add: run_defs cancelling_env_def cancelled_close_def
        caught_by_except_Exception_def)


subsection \<open>The streaming branch\<close>

lemma gather_event_data_results:
  "results_for e (trace (snd (gather_event_data env ev w))) = results_for e (trace w)"
  by (simp add: gather_event_data_def get_message_def send_message_def clean_event_def
        split_beta Let_def split: option.splits)

lemma gather_awake_results:
  "results_for e (trace (snd (gather_awake env evs awake w))) = results_for e (trace w)"
proof (induction evs arbitrary: awake w)
  case Nil
  then show ?case by simp
next
  case (Cons ev evs)
  let ?w1 = "snd (gather_event_data env ev w)"
  let ?w2 = "if fst (gather_event_data env ev w)
             then snd (send_message env ev ProcessStarts ?w1) else ?w1"
  have r2: "results_for e (trace ?w2) = results_for e (trace w)"
    by (simp add: send_message_frame gather_event_data_results)
  obtain aw where step:
    "gather_awake env (ev # evs) awake w = gather_awake env evs aw ?w2"
    by (cases "fst (gather_event_data env ev w)") (simp_all add: split_beta)
  show ?case
    using Cons.IH[where awake = aw and w = ?w2] r2 step by simp
qed

lemma generating_loop_done:
  assumes "signals_generating resp = Some False"
  shows "generating_loop env aw b ev resp old w = Some (LoopDone resp old, w)"
  using assms
  by (subst generating_loop.simps) (auto simp: signals_generating_def split: sum.splits)

lemma call_prediction_answer:
  assumes "aw \<noteq> []" and "event_data w (ident (hd aw)) \<noteq> None"
      and "request env (count_requests (trace w)) = Inr resp"
  shows "call_prediction env aw b w = (Inr resp, w\<lparr>trace := trace w @ [PredictRequest aw b]\<rparr>)"
  using assms by (cases aw) (auto simp: call_prediction_def)

lemma count_list_distinct: "distinct xs \<Longrightarrow> x \<in> set xs \<Longrightarrow> count_list xs x = 1"
  by (induction xs) (auto simp: count_list_0_iff)

lemma generating_loop_iterate:
  assumes g: "signals_generating resp = Some True"
      and alive: "version_lt_38 env \<longrightarrow> (\<forall>k. send_json env k)"
      and data: "aw \<noteq> []" "event_data w (ident (hd aw)) \<noteq> None"
      and ans: "request env (count_requests (trace w)) = Inr resp'"
  shows "\<exists>ev' w3.
       generating_loop env aw b ev resp old w
         = generating_loop env aw b ev' resp' (Some resp) w3
     \<and> event_data w3 = event_data w
     \<and> count_requests (trace w3) = Suc (count_requests (trace w))
     \<and> (\<forall>e. results_for e (trace w3)
            = results_for e (trace w)
              @ replicate (count_list aw e) (ProcessGenerating (json resp) (status resp = 200)))"
proof -
  let ?a = "if version_lt_38 env then send_message env ev Alive w else (True, w)"
  let ?w1 = "snd ?a"
  let ?m = "ProcessGenerating (json resp) (status resp = 200)"
  define w2 where "w2 = send_each env ?m aw ?w1"
  define w3 where "w3 = w2\<lparr>trace := trace w2 @ [PredictRequest aw b]\<rparr>"
  have a: "fst ?a" using alive by (simp add: send_message_frame)
  have w1: "event_data ?w1 = event_data w"
    "count_requests (trace ?w1) = count_requests (trace w)"
    "\<And>e. results_for e (trace ?w1) = results_for e (trace w)"
    by (simp_all add: send_message_frame)
  have w2: "event_data w2 = event_data w"
    "count_requests (trace w2) = count_requests (trace w)"
    "\<And>e. results_for e (trace w2) = results_for e (trace w) @ replicate (count_list aw e) ?m"
    unfolding w2_def using send_each_frame[of ?w1 env ?m aw] w1 by simp_all
  have cp: "call_prediction env aw b w2 = (Inr resp', w3)"
    unfolding w3_def using call_prediction_answer[of aw w2 env resp' b] data ans w2(1,2) by simp
  obtain g' where g': "dict_get (json resp) ''is_generating'' (JBool False) = Inr g'" "truthy g'"
    using g by (auto simp: signals_generating_def split: sum.splits)
  have "generating_loop env aw b ev resp old w
          = generating_loop env aw b (if aw = [] then ev else last aw) resp' (Some resp) w3"
    by (subst generating_loop.simps)
       (use g' a cp in \<open>simp add: split_beta Let_def w2_def [symmetric]\<close>)
  moreover have "event_data w3 = event_data w" using w2(1) by (simp add: w3_def)
  moreover have "count_requests (trace w3) = Suc (count_requests (trace w))"
    using w2(2) by (simp add: w3_def)
  moreover have "\<forall>e. results_for e (trace w3)
            = results_for e (trace w) @ replicate (count_list aw e) ?m"
    using w2(3) by (simp add: w3_def)
  ultimately show ?thesis by blast
qed

text \<open>
  C4, as the code has it. In the streaming branch, on Python 3.8 or later (or when every
  send to a client goes through): whenever the responses of the prediction endpoint are
  \<^verbatim>\<open>is_generating\<close> true twice, then false, \<^verbatim>\<open>process_events\<close> finishes and has sent to each
  awake event exactly two \<^verbatim>\<open>process_generating\<close> messages, with the payload and the status
  flag of the first and of the second response, followed by exactly one
  \<^verbatim>\<open>process_completed\<close> message, which carries the payload and the status flag of the
  second response, the last one that signalled \<^verbatim>\<open>is_generating\<close> (not those of the third).
\<close>

theorem streaming_progress_messages:
  assumes "gather_awake env events [] w = (awake_events, w1)"
      and "ev \<in> set awake_events" and "distinct awake_events"
      and "event_data w1 (ident (hd awake_events)) \<noteq> None"
      and "version_lt_38 env \<longrightarrow> (\<forall>k. send_json env k)"
      and "request env (count_requests (trace w)) = Inr r1"
      and "request env (count_requests (trace w) + 1) = Inr r2"
      and "request env (count_requests (trace w) + 2) = Inr r3"
      and "\<not> has_exception r1"
      and "signals_generating r1 = Some True"
      and "signals_generating r2 = Some True"
      and "signals_generating r3 = Some False"
  shows "\<exists>res w'. process_events env events batch w = Some (res, w')
      \<and> results_for ev (trace w')
          = results_for ev (trace w)
            @ [ProcessGenerating (json r1) (status r1 = 200),
               ProcessGenerating (json r2) (status r2 = 200),
               ProcessCompleted (json r2) (status r2 = 200)]"
proof -
  let ?aw = awake_events
  have ne: "?aw \<noteq> []" using assms(2) by auto
  have one: "count_list ?aw ev = 1"
    using count_list_distinct[OF assms(3,2)] .
  have g1: "count_requests (trace w1) = count_requests (trace w)"
    "results_for ev (trace w1) = results_for ev (trace w)"
    using gather_awake_frame[of w env events "[]"] gather_awake_results[of ev env events "[]" w]
      assms(1) by simp_all
  let ?w2 = "w1\<lparr>trace := trace w1 @ [PredictRequest ?aw batch]\<rparr>"
  have cp: "call_prediction env ?aw batch w1 = (Inr r1, ?w2)"
    using call_prediction_answer[OF ne assms(4), of env r1 batch] assms(6) g1(1) by simp
  have w2: "event_data ?w2 (ident (hd ?aw)) \<noteq> None"
    "request env (count_requests (trace ?w2)) = Inr r2"
    "results_for ev (trace ?w2) = results_for ev (trace w)"
    using assms(4,7) g1 by simp_all
  from generating_loop_iterate[OF assms(10) assms(5) ne w2(1,2),
         where b = batch and ev = "last events" and old = None]
  obtain ev1 w3 where it1:
    "generating_loop env ?aw batch (last events) r1 None ?w2
       = generating_loop env ?aw batch ev1 r2 (Some r1) w3"
    "event_data w3 = event_data ?w2"
    "count_requests (trace w3) = Suc (count_requests (trace ?w2))"
    "results_for ev (trace w3)
       = results_for ev (trace ?w2)
         @ replicate (count_list ?aw ev) (ProcessGenerating (json r1) (status r1 = 200))"
    by blast
  have w3: "event_data w3 (ident (hd ?aw)) \<noteq> None"
    "request env (count_requests (trace w3)) = Inr r3"
    using it1(2,3) w2(1) assms(8) g1(1) by simp_all
  from generating_loop_iterate[OF assms(11) assms(5) ne w3,
         where b = batch and ev = ev1 and old = "Some r1"]
  obtain ev2 w4 where it2:
    "generating_loop env ?aw batch ev1 r2 (Some r1) w3
       = generating_loop env ?aw batch ev2 r3 (Some r2) w4"
    "results_for ev (trace w4)
       = results_for ev (trace w3)
         @ replicate (count_list ?aw ev) (ProcessGenerating (json r2) (status r2 = 200))"
    by blast
  have loop: "generating_loop env ?aw batch (last events) r1 None ?w2
                = Some (LoopDone r3 (Some r2), w4)"
    using it1(1) it2(1) generating_loop_done[OF assms(12)] by simp
  let ?w5 = "send_each env (ProcessCompleted (json r2) (status r2 = 200)) ?aw w4"
  let ?bt = "time env (length (trace w1))"
  obtain out wt where fc: "finish_cycle env ?bt r3 ?w5 = (out, wt)"
    by (cases "finish_cycle env ?bt r3 ?w5")
  obtain g' where g': "dict_get (json r1) ''is_generating'' (JBool False) = Inr g'" "truthy g'"
    using assms(10) by (auto simp: signals_generating_def split: sum.splits)
  have tryb: "process_events_try env events batch w = Some (out, ?aw, wt)"
    using assms(1,9) ne cp g' loop fc by (simp add: process_events_try_def)
  have r5: "results_for ev (trace ?w5)
      = results_for ev (trace w4) @ [ProcessCompleted (json r2) (status r2 = 200)]"
    using send_each_frame[of w4 env "ProcessCompleted (json r2) (status r2 = 200)" ?aw ev] one
    by simp
  have rt: "results_for ev (trace wt)
      = results_for ev (trace w)
        @ [ProcessGenerating (json r1) (status r1 = 200),
           ProcessGenerating (json r2) (status r2 = 200),
           ProcessCompleted (json r2) (status r2 = 200)]"
    using finish_cycle_frame(1)[OF fc] r5 it2(2) it1(4) w2(3) one by simp
  obtain ferr w' where f: "process_events_finally env events ?aw wt = (ferr, w')"
    by (cases "process_events_finally env events ?aw wt")
  have "\<exists>res. process_events env events batch w = Some (res, w')"
    using tryb f by (simp add: process_events_def)
  moreover have "results_for ev (trace w') = results_for ev (trace wt)"
    using process_events_finally_frame(2)[OF f] .
  ultimately show ?thesis using rt by auto
qed


theorem streaming_progress_messages_witness:
  "gather_awake (test_env all_sent (streaming_answers 200)) [mk_event 0 0] []
       (test_world claimed_queue)
     = ([mk_event 0 0],
        snd (gather_awake (test_env all_sent (streaming_answers 200)) [mk_event 0 0] []
               (test_world claimed_queue)))
   \<and> signals_generating (gen_response ''a'') = Some True
   \<and> signals_generating (gen_response ''b'') = Some True
   \<and> signals_generating (final_response 200) = Some False
   \<and> (\<exists>res w'.
        process_events (test_env all_sent (streaming_answers 200)) [mk_event 0 0] False
          (test_world claimed_queue) = Some (res, w')
      \<and> results_for (mk_event 0 0) (trace w')
          = [ProcessGenerating (json (gen_response ''a'')) True,
             ProcessGenerating (json (gen_response ''b'')) True,
             ProcessCompleted (json (gen_response ''b'')) True])"
proof -
  let ?env = "test_env all_sent (streaming_answers 200)"
  let ?w = "test_world claimed_queue"
  let ?w1 = "snd (gather_awake ?env [mk_event 0 0] [] ?w)"
  have h1: "gather_awake ?env [mk_event 0 0] [] ?w = ([mk_event 0 0], ?w1)"
    by (simp add: run_defs)
  have h2: "mk_event 0 0 \<in> set [mk_event 0 0]" "distinct [mk_event 0 0]" by simp_all
  have h4: "event_data ?w1 (ident (hd [mk_event 0 0])) \<noteq> None"
    by (simp add: run_defs)
  have h5: "version_lt_38 ?env \<longrightarrow> (\<forall>k. send_json ?env k)"
    by (simp add: test_env_def)
  have h6: "request ?env (count_requests (trace ?w)) = Inr (gen_response ''a'')"
    "request ?env (count_requests (trace ?w) + 1) = Inr (gen_response ''b'')"
    "request ?env (count_requests (trace ?w) + 2) = Inr (final_response 200)"
    by (simp_all add: test_env_def test_world_def streaming_answers_def)
  have h9: "\<not> has_exception (gen_response ''a'')" by (simp add: gen_response_def)
  have s: "signals_generating (gen_response ''a'') = Some True"
    "signals_generating (gen_response ''b'') = Some True"
    "signals_generating (final_response 200) = Some False"
    by (simp_all add: signals_generating_def gen_response_def final_response_def)
  have t: "results_for (mk_event 0 0) (trace ?w) = []"
    "status (gen_response ''a'') = 200" "status (gen_response ''b'') = 200"
    by (simp_all add: test_world_def gen_response_def)
  show ?thesis
    using h1 s t
      streaming_progress_messages[OF h1 h2 h4 h5 h6 h9 s, where batch = False]
    by simp
qed

text \<open>
  The claim C4 as stated fails in its last clause: when the third response ends the
  stream with status 500 and another payload, the \<^verbatim>\<open>process_completed\<close> message still
  carries the payload of the second response and \<^verbatim>\<open>success = True\<close>.
\<close>

theorem streaming_completed_counterexample:
  "map_option (results_for (mk_event 0 0) \<circ> trace \<circ> snd)
     (process_events (test_env all_sent (streaming_answers 500)) [mk_event 0 0] False
        (test_world claimed_queue))
     = Some [ProcessGenerating (json (gen_response ''a'')) True,
             ProcessGenerating (json (gen_response ''b'')) True,
             ProcessCompleted (json (gen_response ''b'')) True]
   \<and> streaming_answers 500 2 = Inr (final_response 500)
   \<and> ProcessCompleted (json (gen_response ''b'')) True
       \<noteq> ProcessCompleted (json (final_response 500)) (status (final_response 500) = 200)"
  apply (simp add: run_defs)
  apply (subst generating_loop.simps)
  apply (simp add: run_defs)
  apply (subst generating_loop.simps)
  apply (simp add: run_defs)
  apply (subst generating_loop.simps)
  apply (simp add: run_defs)
  done


subsection \<open>When the estimation state changes\<close>

lemma update_estimation_adds:
  assumes "update_estimation d qa = (err, qb)"
  shows "duration_history_count qb = duration_history_count qa + 1"
    and "duration_history_total qb = duration_history_total qa + d"
  using assms
  by (auto simp: update_estimation_def Let_def split: if_splits)

text \<open>
  A finished run of \<^verbatim>\<open>process_events\<close> either leaves the estimation state (total, count,
  averages, queue duration) as it was, or its \<^verbatim>\<open>try\<close> block ended on a last response with
  HTTP status 200 and the state is the result of one call of \<^verbatim>\<open>update_estimation\<close> on the
  old state.
\<close>

lemma estimation_changes_only_by_ok_cycle:
  assumes "process_events env events batch w = Some (res, w')"
  shows "est_state (queue w') = est_state (queue w)
     \<or> (\<exists>out awake wt r qa err.
           process_events_try env events batch w = Some (out, awake, wt)
         \<and> last_response env wt r \<and> status r = 200
         \<and> est_state qa = est_state (queue w)
         \<and> max_thread_count qa = max_thread_count (queue w)
         \<and> update_estimation
              (time env (length (trace wt))
                 - time env (length (trace (snd (gather_awake env events [] w))))) qa
             = (err, queue wt)
         \<and> est_state (queue w') = est_state (queue wt)
         \<and> duration_history_count (queue w') = duration_history_count (queue w) + 1
         \<and> duration_history_total (queue w')
             = duration_history_total (queue w)
               + (time env (length (trace wt))
                    - time env (length (trace (snd (gather_awake env events [] w))))))"
proof -
  obtain out awake wt where t: "process_events_try env events batch w = Some (out, awake, wt)"
    using assms by (auto simp: process_events_def split: option.splits)
  obtain ferr where f: "process_events_finally env events awake wt = (ferr, w')"
    using assms t by (auto simp: process_events_def Let_def split: prod.splits)
  have fin: "est_state (queue w') = est_state (queue wt)"
    using process_events_finally_frame(1)[OF f] .
  let ?bt = "time env (length (trace (snd (gather_awake env events [] w))))"
  from process_events_try_shape(2)[OF t] show ?thesis
  proof
    assume "quiet w wt"
    then have "est_state (queue wt) = est_state (queue w)" by (rule quiet_slots)
    then show ?thesis using fin by simp
  next
    assume "\<exists>r w3. quiet w w3 \<and> last_response env w3 r
        \<and> finish_cycle env ?bt r w3 = (out, wt)"
    then obtain r w3 where q: "quiet w w3" and lr: "last_response env w3 r"
      and fc: "finish_cycle env ?bt r w3 = (out, wt)"
      by blast
    note qs = quiet_slots[OF q]
    show ?thesis
    proof (cases "status r = 200")
      case False
      then have "wt = w3" using fc by (simp add: finish_cycle_def)
      then show ?thesis using qs(3) fin by simp
    next
      case True
      have tr: "trace wt = trace w3" using finish_cycle_frame(1)[OF fc] .
      obtain err where u:
        "update_estimation (time env (length (trace w3)) - ?bt) (queue w3) = (err, queue wt)"
        using fc True
        by (auto simp: finish_cycle_def Let_def split: prod.splits option.splits)
      have lr': "last_response env wt r"
        using last_response_kept[OF lr] tr by simp
      have u': "update_estimation (time env (length (trace wt)) - ?bt) (queue w3)
                  = (err, queue wt)"
        using u tr by simp
      have old: "duration_history_count (queue w3) = duration_history_count (queue w)"
        "duration_history_total (queue w3) = duration_history_total (queue w)"
        using qs(3) by (simp_all add: est_state_def)
      have new: "duration_history_count (queue w') = duration_history_count (queue wt)"
        "duration_history_total (queue w') = duration_history_total (queue wt)"
        using fin by (simp_all add: est_state_def)
      have "duration_history_count (queue w') = duration_history_count (queue w) + 1"
        "duration_history_total (queue w')
           = duration_history_total (queue w) + (time env (length (trace wt)) - ?bt)"
        using update_estimation_adds[OF u'] old new by simp_all
      then show ?thesis using t lr' True qs(3,4) u' fin by blast
    qed
  qed
qed

lemma send_each_extends: "\<exists>tr. trace (send_each env m evs w) = trace w @ tr"
proof (induction evs arbitrary: w)
  case Nil
  then show ?case by simp
next
  case (Cons e evs)
  obtain tr where "trace (send_each env m evs (snd (send_message env e m w)))
      = trace (snd (send_message env e m w)) @ tr"
    using Cons.IH by blast
  then show ?case by (simp add: send_message_frame)
qed

lemma generating_loop_extends:
  assumes "generating_loop env awake batch ev resp old w = Some y"
  shows "\<exists>tr. trace (snd y) = trace w @ tr"
proof (rule generating_loop.raw_induct
         [where P = "\<lambda>env awake batch ev resp old w y. \<exists>tr. trace (snd y) = trace w @ tr",
          OF _ assms], goal_cases)
  case (1 loop env awake batch ev resp old w y)
  show ?case
  proof (cases "dict_get (json resp) ''is_generating'' (JBool False)")
    case (Inl err)
    then show ?thesis using 1(2) by auto
  next
    case g: (Inr g)
    show ?thesis
    proof (cases "truthy g")
      case False
      then show ?thesis using 1(2) g by auto
    next
      case True
      let ?a = "if version_lt_38 env then send_message env ev Alive w else (True, w)"
      let ?w1 = "snd ?a"
      have e1: "\<exists>tr. trace ?w1 = trace w @ tr" by (simp add: send_message_frame)
      show ?thesis
      proof (cases "fst ?a")
        case False
        then have "y = (LoopReturn, ?w1)"
          using 1(2) g True by (simp add: split_beta)
        then show ?thesis using e1 by simp
      next
        case alive: True
        let ?w2 = "send_each env (ProcessGenerating (json resp) (status resp = 200)) awake ?w1"
        let ?ev' = "if awake = [] then ev else last awake"
        have e2: "\<exists>tr. trace ?w2 = trace ?w1 @ tr" by (rule send_each_extends)
        obtain res w3 where cp: "call_prediction env awake batch ?w2 = (res, w3)"
          by (cases "call_prediction env awake batch ?w2")
        have e3: "\<exists>tr. trace w3 = trace ?w2 @ tr"
          using cp by (auto simp: call_prediction_def split: list.splits option.splits)
        have e: "\<exists>tr. trace w3 = trace w @ tr"
          using e1 e2 e3 by (metis append.assoc)
        show ?thesis
        proof (cases res)
          case (Inl err)
          then have "y = (LoopRaise err, w3)"
            using 1(2) g True alive cp by (simp add: split_beta Let_def)
          then show ?thesis using e by simp
        next
          case r: (Inr resp')
          then have rec: "loop env awake batch ?ev' resp' (Some resp) w3 = Some y"
            using 1(2) g True alive cp by (simp add: split_beta Let_def)
          from 1(1)[OF rec] e show ?thesis
            by (metis append.assoc)
        qed
      qed
    qed
  qed
qed

lemma generating_loop_run:
  assumes alive: "version_lt_38 env \<longrightarrow> (\<forall>k. send_json env k)"
      and ne: "aw \<noteq> []"
      and ans: "\<And>i. i \<le> n \<Longrightarrow> request env (c + i) = Inr (rs i)"
      and gen: "\<And>i. i < n \<Longrightarrow> signals_generating (rs i) = Some True"
      and fin: "signals_generating (rs n) = Some False"
      and j: "j \<le> n"
      and cnt: "count_requests (trace w) = c + j + 1"
      and data: "event_data w (ident (hd aw)) \<noteq> None"
  shows "\<exists>w'. generating_loop env aw b ev (rs j) old w
           = Some (LoopDone (rs n) (if j < n then Some (rs (n - 1)) else old), w')
        \<and> count_requests (trace w') = c + n + 1"
  using j cnt data
proof (induction "n - j" arbitrary: j w ev old)
  case 0
  then have "j = n" by simp
  then show ?case
    using generating_loop_done[OF fin, of env aw b ev old w] "0.prems"(2) by auto
next
  case (Suc d)
  then have lt: "j < n" by simp
  have a: "request env (count_requests (trace w)) = Inr (rs (Suc j))"
    using ans[of "Suc j"] lt Suc.prems(2) by simp
  from generating_loop_iterate[OF gen[OF lt] alive ne Suc.prems(3) a,
         where b = b and ev = ev and old = old]
  obtain ev' w3 where it:
    "generating_loop env aw b ev (rs j) old w
       = generating_loop env aw b ev' (rs (Suc j)) (Some (rs j)) w3"
    "event_data w3 = event_data w"
    "count_requests (trace w3) = Suc (count_requests (trace w))"
    by blast
  have d: "d = n - Suc j" using Suc.hyps(2) by simp
  have p: "Suc j \<le> n" "count_requests (trace w3) = c + Suc j + 1"
    "event_data w3 (ident (hd aw)) \<noteq> None"
    using lt it(2,3) Suc.prems(2,3) by simp_all
  from Suc.hyps(1)[OF d p, of ev' "Some (rs j)"]
  obtain w' where r:
    "generating_loop env aw b ev' (rs (Suc j)) (Some (rs j)) w3
       = Some (LoopDone (rs n) (if Suc j < n then Some (rs (n - 1)) else Some (rs j)), w')"
    "count_requests (trace w') = c + n + 1"
    by blast
  have "(if Suc j < n then Some (rs (n - 1)) else Some (rs j)) = Some (rs (n - 1))"
  proof (cases "Suc j < n")
    case True
    then show ?thesis by simp
  next
    case False
    then have "j = n - 1" using lt by arith
    then show ?thesis using False by simp
  qed
  then show ?case using it(1) r lt by simp
qed

text \<open>
  A streaming cycle of \<open>n \<ge> 1\<close> legs that signal \<^verbatim>\<open>is_generating\<close>, closed by a response
  with status 200: the run finishes and feeds the estimator once, with the time from the
  first prediction request (the effect that follows the collection of the awake events)
  to the end of the \<^verbatim>\<open>try\<close> block.
\<close>

lemma streaming_cycle_fed:
  assumes ga: "gather_awake env events [] w = (awake, w1)"
      and ne: "awake \<noteq> []"
      and data: "event_data w1 (ident (hd awake)) \<noteq> None"
      and alive: "version_lt_38 env \<longrightarrow> (\<forall>k. send_json env k)"
      and ans: "\<And>i. i \<le> n \<Longrightarrow> request env (count_requests (trace w) + i) = Inr (rs i)"
      and gen: "\<And>i. i < n \<Longrightarrow> signals_generating (rs i) = Some True"
      and fin: "signals_generating (rs n) = Some False"
      and n: "0 < n" and noexc: "\<not> has_exception (rs 0)" and ok: "status (rs n) = 200"
  shows "\<exists>res w' out wt qa err tr.
       process_events env events batch w = Some (res, w')
     \<and> process_events_try env events batch w = Some (out, awake, wt)
     \<and> trace wt = trace w1 @ PredictRequest awake batch # tr
     \<and> count_requests (trace w1) = count_requests (trace w)
     \<and> last_response env wt (rs n)
     \<and> est_state qa = est_state (queue w)
     \<and> max_thread_count qa = max_thread_count (queue w)
     \<and> update_estimation (time env (length (trace wt)) - time env (length (trace w1))) qa
         = (err, queue wt)
     \<and> est_state (queue w') = est_state (queue wt)
     \<and> duration_history_count (queue w') = duration_history_count (queue w) + 1
     \<and> duration_history_total (queue w')
         = duration_history_total (queue w)
           + (time env (length (trace wt)) - time env (length (trace w1)))"
proof -
  let ?c = "count_requests (trace w)"
  let ?bt = "time env (length (trace w1))"
  have g1: "quiet w w1" "count_requests (trace w1) = ?c"
    using gather_awake_frame[of w env events "[]"] ga by simp_all
  define w2 where "w2 = w1\<lparr>trace := trace w1 @ [PredictRequest awake batch]\<rparr>"
  have cp: "call_prediction env awake batch w1 = (Inr (rs 0), w2)"
    unfolding w2_def
    using call_prediction_answer[OF ne data, of env "rs 0" batch] ans[of 0] g1(2) by simp
  have q2: "quiet w1 w2" using call_prediction_frame(1)[OF cp] .
  have w2: "count_requests (trace w2) = ?c + 0 + 1" "event_data w2 (ident (hd awake)) \<noteq> None"
    using g1(2) data by (simp_all add: w2_def)
  from generating_loop_run
         [where j = 0 and b = batch and ev = "last events" and old = None and w = w2
            and rs = rs and n = n and c = "count_requests (trace w)",
          OF alive ne ans gen fin _ w2]
  obtain w4 where lp:
    "generating_loop env awake batch (last events) (rs 0) None w2
       = Some (LoopDone (rs n) (Some (rs (n - 1))), w4)"
    "count_requests (trace w4) = ?c + n + 1"
    using n by auto
  have q4: "quiet w2 w4" using generating_loop_frame[OF lp(1)] by simp
  obtain tr1 where t4: "trace w4 = trace w2 @ tr1"
    using generating_loop_extends[OF lp(1)] by auto
  define w5 where "w5 = send_each env
      (ProcessCompleted (json (rs (n - 1))) (status (rs (n - 1)) = 200)) awake w4"
  have s5: "quiet w4 w5" "count_requests (trace w5) = count_requests (trace w4)"
    unfolding w5_def using send_each_frame by blast+
  obtain tr2 where t5: "trace w5 = trace w4 @ tr2"
    unfolding w5_def using send_each_extends by blast
  obtain out wt where fc: "finish_cycle env ?bt (rs n) w5 = (out, wt)"
    by (cases "finish_cycle env ?bt (rs n) w5")
  have tw: "trace wt = trace w5" using finish_cycle_frame(1)[OF fc] .
  obtain err where u:
    "update_estimation (time env (length (trace w5)) - ?bt) (queue w5) = (err, queue wt)"
    using fc ok by (auto simp: finish_cycle_def Let_def split: prod.splits option.splits)
  obtain g' where g': "dict_get (json (rs 0)) ''is_generating'' (JBool False) = Inr g'"
    "truthy g'"
    using gen[OF n] by (auto simp: signals_generating_def split: sum.splits)
  have tryb: "process_events_try env events batch w = Some (out, awake, wt)"
    using ga ne cp noexc g' lp(1) fc by (simp add: process_events_try_def w5_def)
  have q5: "quiet w w5"
    using quiet_trans[OF g1(1) quiet_trans[OF q2 quiet_trans[OF q4 s5(1)]]] .
  note qs = quiet_slots[OF q5]
  have lr: "last_response env wt (rs n)"
    using ans[of n] lp(2) s5(2) tw by (simp add: last_response_def)
  have shape: "trace wt = trace w1 @ PredictRequest awake batch # (tr1 @ tr2)"
    using tw t5 t4 by (simp add: w2_def)
  obtain ferr w' where f: "process_events_finally env events awake wt = (ferr, w')"
    by (cases "process_events_finally env events awake wt")
  have run: "\<exists>res. process_events env events batch w = Some (res, w')"
    using tryb f by (simp add: process_events_def)
  have fin': "est_state (queue w') = est_state (queue wt)"
    using process_events_finally_frame(1)[OF f] .
  have u': "update_estimation (time env (length (trace wt)) - ?bt) (queue w5)
              = (err, queue wt)"
    using u tw by simp
  have old: "duration_history_count (queue w5) = duration_history_count (queue w)"
    "duration_history_total (queue w5) = duration_history_total (queue w)"
    using qs(3) by (simp_all add: est_state_def)
  have new: "duration_history_count (queue w') = duration_history_count (queue wt)"
    "duration_history_total (queue w') = duration_history_total (queue wt)"
    using fin' by (simp_all add: est_state_def)
  have add: "duration_history_count (queue w') = duration_history_count (queue w) + 1"
    "duration_history_total (queue w')
       = duration_history_total (queue w) + (time env (length (trace wt)) - ?bt)"
    using update_estimation_adds[OF u'] old new by simp_all
  show ?thesis
    using run tryb shape g1(2) lr qs(3,4) u' fin' add by blast
qed

text \<open>
  C5, as the code has it. (1) A finished run of \<^verbatim>\<open>process_events\<close> either leaves the
  estimation state (total, count, averages, queue duration) as it was, or its \<^verbatim>\<open>try\<close>
  block ended on a last response with HTTP status 200 and the state is the result of one
  call of \<^verbatim>\<open>update_estimation\<close> on the old state: the count grows by one and the total by
  the duration fed; nothing resets the state, and a run whose last response has another
  status leaves the state as it was. (2) A streaming cycle (one or more responses that
  signal \<^verbatim>\<open>is_generating\<close>, on Python 3.8 or later or when every send goes through) whose
  final response has status 200 does feed the estimator, once, and the duration fed is
  the whole time from just before the first prediction request of the cycle to the end
  of the \<^verbatim>\<open>try\<close> block, over all legs.
\<close>

theorem estimation_fed_by_ok_cycle:
  "(process_events env events batch w = Some (res, w') \<longrightarrow>
      (\<exists>out awake wt.
          process_events_try env events batch w = Some (out, awake, wt)
        \<and> est_state (queue w') = est_state (queue wt)
        \<and> duration_history_count (queue w) \<le> duration_history_count (queue w')
        \<and> (\<forall>r. last_response env wt r \<and> status r \<noteq> 200
               \<longrightarrow> est_state (queue w') = est_state (queue w))
        \<and> (est_state (queue w') = est_state (queue w)
           \<or> (\<exists>r qa err.
                 last_response env wt r \<and> status r = 200
               \<and> est_state qa = est_state (queue w)
               \<and> max_thread_count qa = max_thread_count (queue w)
               \<and> update_estimation
                    (time env (length (trace wt))
                       - time env (length (trace (snd (gather_awake env events [] w))))) qa
                   = (err, queue wt)
               \<and> duration_history_count (queue w') = duration_history_count (queue w) + 1
               \<and> duration_history_total (queue w')
                   = duration_history_total (queue w)
                     + (time env (length (trace wt))
                          - time env (length (trace (snd (gather_awake env events [] w)))))))))
   \<and> (gather_awake env events [] w = (awake_events, w1) \<and> awake_events \<noteq> []
        \<and> event_data w1 (ident (hd awake_events)) \<noteq> None
        \<and> (version_lt_38 env \<longrightarrow> (\<forall>k. send_json env k))
        \<and> (\<forall>i. i \<le> n \<longrightarrow> request env (count_requests (trace w) + i) = Inr (rs i))
        \<and> (\<forall>i. i < n \<longrightarrow> signals_generating (rs i) = Some True)
        \<and> signals_generating (rs n) = Some False
        \<and> 0 < n \<and> \<not> has_exception (rs 0) \<and> status (rs n) = 200 \<longrightarrow>
      (\<exists>res2 w2 out wt qa err tr.
          process_events env events batch w = Some (res2, w2)
        \<and> process_events_try env events batch w = Some (out, awake_events, wt)
        \<and> trace wt = trace w1 @ PredictRequest awake_events batch # tr
        \<and> count_requests (trace w1) = count_requests (trace w)
        \<and> last_response env wt (rs n)
        \<and> est_state qa = est_state (queue w)
        \<and> max_thread_count qa = max_thread_count (queue w)
        \<and> update_estimation (time env (length (trace wt)) - time env (length (trace w1))) qa
            = (err, queue wt)
        \<and> est_state (queue w2) = est_state (queue wt)
        \<and> duration_history_count (queue w2) = duration_history_count (queue w) + 1
        \<and> duration_history_total (queue w2)
            = duration_history_total (queue w)
              + (time env (length (trace wt)) - time env (length (trace w1)))))"
proof (intro conjI impI)
  assume run: "process_events env events batch w = Some (res, w')"
  obtain out awake wt where t: "process_events_try env events batch w = Some (out, awake, wt)"
    using run by (auto simp: process_events_def split: option.splits)
  obtain ferr where f: "process_events_finally env events awake wt = (ferr, w')"
    using run t by (auto simp: process_events_def Let_def split: prod.splits)
  have fin: "est_state (queue w') = est_state (queue wt)"
    using process_events_finally_frame(1)[OF f] .
  let ?d = "time env (length (trace wt))
              - time env (length (trace (snd (gather_awake env events [] w))))"
  from estimation_changes_only_by_ok_cycle[OF run]
  have alt: "est_state (queue w') = est_state (queue w)
     \<or> (\<exists>r qa err. last_response env wt r \<and> status r = 200
           \<and> est_state qa = est_state (queue w)
           \<and> max_thread_count qa = max_thread_count (queue w)
           \<and> update_estimation ?d qa = (err, queue wt)
           \<and> duration_history_count (queue w') = duration_history_count (queue w) + 1
           \<and> duration_history_total (queue w') = duration_history_total (queue w) + ?d)"
    using t by auto
  have mono: "duration_history_count (queue w) \<le> duration_history_count (queue w')"
    using alt by (auto simp: est_state_def)
  have nonok: "\<forall>r. last_response env wt r \<and> status r \<noteq> 200
                 \<longrightarrow> est_state (queue w') = est_state (queue w)"
    using alt by (auto simp: last_response_def)
  show "\<exists>out awake wt.
          process_events_try env events batch w = Some (out, awake, wt)
        \<and> est_state (queue w') = est_state (queue wt)
        \<and> duration_history_count (queue w) \<le> duration_history_count (queue w')
        \<and> (\<forall>r. last_response env wt r \<and> status r \<noteq> 200
               \<longrightarrow> est_state (queue w') = est_state (queue w))
        \<and> (est_state (queue w') = est_state (queue w)
           \<or> (\<exists>r qa err.
                 last_response env wt r \<and> status r = 200
               \<and> est_state qa = est_state (queue w)
               \<and> max_thread_count qa = max_thread_count (queue w)
               \<and> update_estimation
                    (time env (length (trace wt))
                       - time env (length (trace (snd (gather_awake env events [] w))))) qa
                   = (err, queue wt)
               \<and> duration_history_count (queue w') = duration_history_count (queue w) + 1
               \<and> duration_history_total (queue w')
                   = duration_history_total (queue w)
                     + (time env (length (trace wt))
                          - time env (length (trace (snd (gather_awake env events [] w)))))))"
    using t fin mono nonok alt by blast
next
  assume h: "gather_awake env events [] w = (awake_events, w1) \<and> awake_events \<noteq> []
        \<and> event_data w1 (ident (hd awake_events)) \<noteq> None
        \<and> (version_lt_38 env \<longrightarrow> (\<forall>k. send_json env k))
        \<and> (\<forall>i. i \<le> n \<longrightarrow> request env (count_requests (trace w) + i) = Inr (rs i))
        \<and> (\<forall>i. i < n \<longrightarrow> signals_generating (rs i) = Some True)
        \<and> signals_generating (rs n) = Some False
        \<and> 0 < n \<and> \<not> has_exception (rs 0) \<and> status (rs n) = 200"
  show "\<exists>res2 w2 out wt qa err tr.
          process_events env events batch w = Some (res2, w2)
        \<and> process_events_try env events batch w = Some (out, awake_events, wt)
        \<and> trace wt = trace w1 @ PredictRequest awake_events batch # tr
        \<and> count_requests (trace w1) = count_requests (trace w)
        \<and> last_response env wt (rs n)
        \<and> est_state qa = est_state (queue w)
        \<and> max_thread_count qa = max_thread_count (queue w)
        \<and> update_estimation (time env (length (trace wt)) - time env (length (trace w1))) qa
            = (err, queue wt)
        \<and> est_state (queue w2) = est_state (queue wt)
        \<and> duration_history_count (queue w2) = duration_history_count (queue w) + 1
        \<and> duration_history_total (queue w2)
            = duration_history_total (queue w)
              + (time env (length (trace wt)) - time env (length (trace w1)))"
    by (rule streaming_cycle_fed[where n = n and rs = rs]) (use h in simp_all)
qed

theorem estimation_fed_by_ok_cycle_witness:
  "gather_awake (test_env all_sent (streaming_answers 200)) [mk_event 0 0] []
       (test_world claimed_queue)
     = ([mk_event 0 0],
        snd (gather_awake (test_env all_sent (streaming_answers 200)) [mk_event 0 0] []
               (test_world claimed_queue)))
   \<and> request (test_env all_sent (streaming_answers 200))
         (count_requests (trace (test_world claimed_queue)) + 0)
       = Inr (streaming_responses 200 0)
   \<and> request (test_env all_sent (streaming_answers 200))
         (count_requests (trace (test_world claimed_queue)) + 1)
       = Inr (streaming_responses 200 1)
   \<and> request (test_env all_sent (streaming_answers 200))
         (count_requests (trace (test_world claimed_queue)) + 2)
       = Inr (streaming_responses 200 2)
   \<and> signals_generating (streaming_responses 200 0) = Some True
   \<and> signals_generating (streaming_responses 200 1) = Some True
   \<and> signals_generating (streaming_responses 200 2) = Some False
   \<and> status (streaming_responses 200 2) = 200
   \<and> (\<exists>res w' out wt.
        process_events (test_env all_sent (streaming_answers 200)) [mk_event 0 0] False
          (test_world claimed_queue) = Some (res, w')
      \<and> process_events_try (test_env all_sent (streaming_answers 200)) [mk_event 0 0] False
          (test_world claimed_queue) = Some (out, [mk_event 0 0], wt)
      \<and> last_response (test_env all_sent (streaming_answers 200)) wt
          (streaming_responses 200 2)
      \<and> duration_history_count (queue (test_world claimed_queue))
          \<le> duration_history_count (queue w')
      \<and> duration_history_count (queue w') = 1
      \<and> duration_history_total (queue w')
          = time (test_env all_sent (streaming_answers 200)) (length (trace wt))
            - time (test_env all_sent (streaming_answers 200))
                (length (trace (snd (gather_awake (test_env all_sent (streaming_answers 200))
                                       [mk_event 0 0] [] (test_world claimed_queue))))))"
proof -
  let ?env = "test_env all_sent (streaming_answers 200)"
  let ?w = "test_world claimed_queue"
  let ?rs = "streaming_responses 200"
  define w1 where "w1 = snd (gather_awake ?env [mk_event 0 0] [] ?w)"
  have h1: "gather_awake ?env [mk_event 0 0] [] ?w = ([mk_event 0 0], w1)"
    unfolding w1_def by (simp add: run_defs)
  have h2: "[mk_event 0 0] \<noteq> []" by simp
  have h3: "event_data w1 (ident (hd [mk_event 0 0])) \<noteq> None"
    unfolding w1_def by (simp add: run_defs)
  have h4: "version_lt_38 ?env \<longrightarrow> (\<forall>k. send_json ?env k)"
    by (simp add: test_env_def)
  have h5: "\<forall>i. i \<le> 2 \<longrightarrow> request ?env (count_requests (trace ?w) + i) = Inr (?rs i)"
    by (simp add: test_env_def test_world_def streaming_answers_def streaming_responses_def)
  have h6: "\<forall>i. i < 2 \<longrightarrow> signals_generating (?rs i) = Some True"
    by (simp add: streaming_responses_def signals_generating_def gen_response_def)
  have h7: "signals_generating (?rs 2) = Some False"
    by (simp add: streaming_responses_def signals_generating_def final_response_def)
  have e5: "request ?env (count_requests (trace ?w) + 0) = Inr (?rs 0)"
    "request ?env (count_requests (trace ?w) + 1) = Inr (?rs 1)"
    "request ?env (count_requests (trace ?w) + 2) = Inr (?rs 2)"
    by (simp_all add: test_env_def test_world_def streaming_answers_def
          streaming_responses_def)
  have e6: "signals_generating (?rs 0) = Some True" "signals_generating (?rs 1) = Some True"
    by (simp_all add: streaming_responses_def signals_generating_def gen_response_def)
  have h8: "(0::nat) < 2" by simp
  have h9: "\<not> has_exception (?rs 0)"
    by (simp add: streaming_responses_def gen_response_def)
  have h10: "status (?rs 2) = 200"
    by (simp add: streaming_responses_def final_response_def)
  have z: "duration_history_count (queue ?w) = 0" "duration_history_total (queue ?w) = 0"
    by (simp_all add: run_defs)
  note T = estimation_fed_by_ok_cycle
             [where env = ?env and events = "[mk_event 0 0]" and batch = False and w = ?w
                and awake_events = "[mk_event 0 0]" and ?w1.0 = w1 and n = 2 and rs = ?rs]
  have H: "gather_awake ?env [mk_event 0 0] [] ?w = ([mk_event 0 0], w1)
        \<and> [mk_event 0 0] \<noteq> []
        \<and> event_data w1 (ident (hd [mk_event 0 0])) \<noteq> None
        \<and> (version_lt_38 ?env \<longrightarrow> (\<forall>k. send_json ?env k))
        \<and> (\<forall>i. i \<le> 2 \<longrightarrow> request ?env (count_requests (trace ?w) + i) = Inr (?rs i))
        \<and> (\<forall>i. i < 2 \<longrightarrow> signals_generating (?rs i) = Some True)
        \<and> signals_generating (?rs 2) = Some False
        \<and> 0 < (2::nat) \<and> \<not> has_exception (?rs 0) \<and> status (?rs 2) = 200"
    using h1 h2 h3 h4 h5 h6 h7 h8 h9 h10 by blast
  from conjunct2[OF T, THEN mp, OF H]
  obtain res w' out wt where r:
    "process_events ?env [mk_event 0 0] False ?w = Some (res, w')"
    "process_events_try ?env [mk_event 0 0] False ?w = Some (out, [mk_event 0 0], wt)"
    "last_response ?env wt (?rs 2)"
    "duration_history_count (queue w') = duration_history_count (queue ?w) + 1"
    "duration_history_total (queue w')
       = duration_history_total (queue ?w)
         + (time ?env (length (trace wt)) - time ?env (length (trace w1)))"
    by blast
  from conjunct1[OF T[where res = res and w' = w'], THEN mp, OF r(1)]
  have m: "duration_history_count (queue ?w) \<le> duration_history_count (queue w')"
    by blast
  have c1: "duration_history_count (queue w') = 1" using r(4) z(1) by simp
  have tot: "duration_history_total (queue w')
      = time ?env (length (trace wt)) - time ?env (length (trace w1))"
    using r(5) z(2) by simp
  show ?thesis
    unfolding w1_def[symmetric]
    using h1 e5 e6 h7 h10 r(1,2,3) m c1 tot by blast
qed

text \<open>
  The claim C5 as stated fails in its clause on streaming cycles. In a run where every
  effect takes one second and the endpoint answers \<^verbatim>\<open>is_generating\<close> twice and then ends
  with status 200, the final leg lasts 2 seconds (from the third request to the end of
  the \<^verbatim>\<open>try\<close> block), but the duration fed to the estimator is 6 seconds, the time since
  just before the first request.
\<close>

theorem streaming_duration_counterexample:
  "map_option (duration_history_total \<circ> queue \<circ> snd \<circ> snd)
     (process_events_try (test_env all_sent (streaming_answers 200)) [mk_event 0 0] False
        (test_world claimed_queue)) = Some 6
   \<and> map_option
       (final_leg_duration (test_env all_sent (streaming_answers 200)) \<circ> trace \<circ> snd \<circ> snd)
     (process_events_try (test_env all_sent (streaming_answers 200)) [mk_event 0 0] False
        (test_world claimed_queue)) = Some 2
   \<and> duration_history_total (queue (test_world claimed_queue)) = 0"
proof -
  let ?run = "process_events_try (test_env all_sent (streaming_answers 200)) [mk_event 0 0]
                False (test_world claimed_queue)"
  have "map_option
          (\<lambda>x. (duration_history_total (queue (snd (snd x))),
                final_leg_duration (test_env all_sent (streaming_answers 200))
                  (trace (snd (snd x))))) ?run = Some (6, 2)"
    apply (simp add: run_defs)
    apply (subst generating_loop.simps)
    apply (simp add: run_defs)
    apply (subst generating_loop.simps)
    apply (simp add: run_defs)
    apply (subst generating_loop.simps)
    apply (simp add: run_defs final_leg_duration_def final_leg_start_def)
    done
  moreover have "duration_history_total (queue (test_world claimed_queue)) = 0"
    by (simp add: run_defs)
  ultimately show ?thesis
    by (cases ?run) auto
qed


end
